theory Spec2Isabelle
  imports Complex_Main
begin

section \<open>The document object graph\<close>

text \<open>
  The workers manipulate a parsed PDF through the object model of pdf-lib, which is not
  part of the repository. Its values are modelled as the tagged variant of the
  specification (section 9): null, booleans, numbers, names, strings, references, arrays,
  dictionaries and streams (a dictionary plus a byte payload). A dictionary is an
  association list from key names to values. A number is given by its value, a rational;
  the arithmetic of the workers rounds every result to the nearest double (see the
  section on JavaScript numbers).
\<close>

type_synonym ref = nat

datatype pdfobj =
    PDFNull
  | PDFBool bool
  | PDFNumber rat
  | PDFName string
  | PDFString string
  | PDFRef ref
  | PDFArray "pdfobj list"
  | PDFDict "(string \<times> pdfobj) list"
  | PDFStream "(string \<times> pdfobj) list" "nat list"

type_synonym entries = "(string \<times> pdfobj) list"

text \<open>
  \<open>pdfDoc\<close> is the loaded document: \<open>indirectObjects\<close> is
  \<open>pdfDoc.context\<close>'s table of indirect objects, \<open>Root\<close> and \<open>Info\<close> are
  \<open>pdfDoc.context.trailerInfo.Root\<close> and \<open>.Info\<close>, and \<open>pages\<close> lists
  the \<open>ref\<close> of each page returned by \<open>pdfDoc.getPages()\<close>.
\<close>

record pdfDoc =
  indirectObjects :: "ref \<rightharpoonup> pdfobj"
  Root :: ref
  Info :: "ref option"
  pages :: "ref list"

text \<open>
  The options of a request, as the type \<open>PDFCompressionOptions\<close> of the repository
  declares them; \<open>CompressionLevel\<close> is \<open>'low' | 'medium' | 'high'\<close>.
\<close>

datatype compressionLevel = Low | Medium | High

record options =
  quality :: rat
  compressionLevel :: compressionLevel
  preserveQuality :: bool

text \<open>
  What a statement throws: an \<open>Error\<close> of pdf-lib with its message, or the
  \<open>TypeError\<close> that the JavaScript engine raises when a method is called on
  \<open>undefined\<close> or on a value that has no such method. The message of a
  \<open>TypeError\<close> is a sentence of the engine; the source does not fix its wording.
\<close>

datatype error = Error string | TypeError

subsection \<open>Object model operations\<close>

text \<open>
  Modelled from the spec: the operations of the Object Model Provider (pdf-lib, imported
  by the workers and absent from the repository). \<open>lookup\<close> is
  \<open>resolve(graph, reference) -> Node | Missing\<close>: it never raises, and an
  unresolvable reference gives \<open>None\<close>. \<open>dict_has\<close>, \<open>dict_get\<close> and
  \<open>dict_delete\<close> are \<open>has\<close>, \<open>get\<close> and \<open>delete\<close> of a dictionary;
  deleting an absent key changes nothing. A stream answers them with its dictionary.
\<close>

definition lookup :: "pdfDoc \<Rightarrow> ref \<Rightarrow> pdfobj option" where
  "lookup doc r = indirectObjects doc r"

fun dictOf :: "pdfobj \<Rightarrow> entries option" where
  "dictOf (PDFDict d) = Some d"
| "dictOf (PDFStream d b) = Some d"
| "dictOf _ = None"

fun setEntries :: "pdfobj \<Rightarrow> entries \<Rightarrow> pdfobj" where
  "setEntries (PDFDict _) d = PDFDict d"
| "setEntries (PDFStream _ b) d = PDFStream d b"
| "setEntries obj d = obj"

definition dictAt :: "pdfDoc \<Rightarrow> ref \<Rightarrow> entries option" where
  "dictAt doc r = (case lookup doc r of None \<Rightarrow> None | Some obj \<Rightarrow> dictOf obj)"

definition dict_has :: "entries \<Rightarrow> string \<Rightarrow> bool" where
  "dict_has d k = (map_of d k \<noteq> None)"

definition dict_get :: "entries \<Rightarrow> string \<Rightarrow> pdfobj option" where
  "dict_get d k = map_of d k"

definition dict_delete :: "string \<Rightarrow> entries \<Rightarrow> entries" where
  "dict_delete k d = filter (\<lambda>e. fst e \<noteq> k) d"

definition dict_set :: "string \<Rightarrow> pdfobj \<Rightarrow> entries \<Rightarrow> entries" where
  "dict_set k v d = map (\<lambda>e. if fst e = k then (k, v) else e) d"

text \<open>
  Dictionaries are mutable objects shared through the table of indirect objects: a
  mutation of the dictionary found at \<open>r\<close> is a new table entry at \<open>r\<close>.
\<close>

definition assign :: "ref \<Rightarrow> entries \<Rightarrow> pdfDoc \<Rightarrow> pdfDoc" where
  "assign r d doc =
     (case lookup doc r of
        None \<Rightarrow> doc
      | Some obj \<Rightarrow> doc\<lparr>indirectObjects := (indirectObjects doc)(r \<mapsto> setEntries obj d)\<rparr>)"

subsection \<open>Statements that may throw\<close>

text \<open>
  A statement takes the state and either completes with the new state (\<open>Inr\<close>) or
  throws (\<open>Inl\<close>) an error together with the state as mutated up to the throw.
  \<open>steps\<close> runs statements in sequence and stops at the first throw; a \<open>for\<close> loop
  is \<open>steps\<close> over the mapped loop body. \<open>catching\<close> is
  \<open>try { body } catch (error) { console.warn(...) }\<close>: the error is dropped and the
  state reached is kept.
\<close>

type_synonym 's stmt = "'s \<Rightarrow> (error \<times> 's) + 's"

fun steps :: "'s stmt list \<Rightarrow> 's stmt" where
  "steps [] s = Inr s"
| "steps (c # cs) s = (case c s of Inl e \<Rightarrow> Inl e | Inr s' \<Rightarrow> steps cs s')"

definition catching :: "'s stmt \<Rightarrow> 's \<Rightarrow> 's" where
  "catching body s = (case body s of Inl (e, s') \<Rightarrow> s' | Inr s' \<Rightarrow> s')"

text \<open>
  \<open>deleteIfHas r k\<close> is the recurring
  \<open>if (dict.has(PDFName.of(k))) { dict.delete(PDFName.of(k)); }\<close> on the object
  \<open>dict = pdfDoc.context.lookup(r)\<close>.
\<close>

definition deleteIfHas :: "ref \<Rightarrow> string \<Rightarrow> pdfDoc stmt" where
  "deleteIfHas r k doc =
     (case dictAt doc r of
        None \<Rightarrow> Inl (TypeError, doc)
      | Some d \<Rightarrow> Inr (if dict_has d k then assign r (dict_delete k d) doc else doc))"

section \<open>JavaScript numbers\<close>

text \<open>
  A JavaScript number is an IEEE 754 double. A finite double is modelled by its value and
  every arithmetic result is rounded to the nearest double, a tie going to the even
  significand. \<open>bitLength n\<close> is the number of binary digits of \<open>n\<close>,
  \<open>ilog2 x\<close> is the integer part of the binary logarithm of a positive \<open>x\<close>,
  and \<open>pow2 k\<close> is two to the power \<open>k\<close>. Around \<open>x\<close> the doubles are
  the multiples of \<open>pow2 e\<close> with \<open>e = max (ilog2 \<bar>x\<bar> - 52) (- 1074)\<close>
  (53 significant bits, and the fixed spacing of the subnormal numbers at the bottom of
  the range); \<open>toDouble x\<close> is the nearest of them. That is the double of \<open>x\<close>
  as long as the result is below \<open>2 ^ 1024\<close>; beyond, the double is an infinity.
  A decimal literal of the source denotes the double of its value: \<open>0.8\<close> is
  \<open>toDouble (8 / 10)\<close>.
\<close>

fun bitLength :: "nat \<Rightarrow> nat" where
  "bitLength n = (if n = 0 then 0 else Suc (bitLength (n div 2)))"

declare bitLength.simps [simp del]

definition ilog2 :: "rat \<Rightarrow> int" where
  "ilog2 x =
     (if 1 \<le> x then int (bitLength (nat \<lfloor>x\<rfloor>)) - 1
      else - int (bitLength (nat (\<lceil>1 / x\<rceil> - 1))))"

definition pow2 :: "int \<Rightarrow> rat" where
  "pow2 k = (if 0 \<le> k then 2 ^ nat k else 1 / 2 ^ nat (- k))"

definition roundHalfEven :: "rat \<Rightarrow> int" where
  "roundHalfEven x =
     (let n = \<lfloor>x\<rfloor>; r = x - of_int n
      in if r < 1 / 2 then n else if 1 / 2 < r then n + 1 else if even n then n else n + 1)"

definition toDouble :: "rat \<Rightarrow> rat" where
  "toDouble x =
     (if x = 0 then 0
      else let e = max (ilog2 \<bar>x\<bar> - 52) (- 1074)
           in of_int (roundHalfEven (x / pow2 e)) * pow2 e)"

text \<open>The product \<open>a * b\<close> of two doubles.\<close>

definition js_times :: "rat \<Rightarrow> rat \<Rightarrow> rat" where
  "js_times a b = toDouble (a * b)"

section \<open>Image processing (enhanced worker)\<close>

text \<open>
  \<open>width < 100\<close> and \<open>width > 1000\<close> compare a dictionary value with a number:
  a value that is not a number converts to NaN and every comparison with it is false.
\<close>

fun toNumber :: "pdfobj \<Rightarrow> rat option" where
  "toNumber (PDFNumber n) = Some n"
| "toNumber _ = None"

definition js_lt :: "pdfobj \<Rightarrow> rat \<Rightarrow> bool" where
  "js_lt v c = (case toNumber v of None \<Rightarrow> False | Some n \<Rightarrow> n < c)"

definition js_gt :: "pdfobj \<Rightarrow> rat \<Rightarrow> bool" where
  "js_gt v c = (case toNumber v of None \<Rightarrow> False | Some n \<Rightarrow> n > c)"

text \<open>
  The value of the local variable \<open>downsampleFactor\<close> of \<open>processImageXObject\<close>
  after its three assignments: the \<open>switch\<close> on the level, then
  \<open>downsampleFactor *= 0.8\<close> and \<open>downsampleFactor *= 0.7\<close> under their
  conditions, each a product of doubles.
\<close>

definition downsampleFactor :: "options \<Rightarrow> pdfobj \<Rightarrow> pdfobj \<Rightarrow> rat" where
  "downsampleFactor opts width height =
     (let f0 = (case compressionLevel opts of
                  Low \<Rightarrow> if quality opts > 80 then 1 else toDouble (9 / 10)
                | Medium \<Rightarrow> if quality opts > 60 then toDouble (8 / 10) else toDouble (7 / 10)
                | High \<Rightarrow> if quality opts > 40 then toDouble (6 / 10) else toDouble (5 / 10));
          f1 = (if js_gt width 1000 \<or> js_gt height 1000
                then js_times f0 (toDouble (8 / 10)) else f0);
          f2 = (if compressionLevel opts = High \<and> quality opts < 30
                then js_times f1 (toDouble (7 / 10)) else f1)
      in f2)"

text \<open>
  The state of the image stage is the document together with a record of the calls of
  \<open>processImageXObject\<close>: the reference of the image and the factor computed for it
  (\<open>None\<close> when the function returned before computing one). The record is not part of
  the program; it makes the discarded local variable observable.
\<close>

type_synonym imgState = "pdfDoc \<times> (ref \<times> rat option) list"

definition processImageXObject :: "options \<Rightarrow> pdfobj \<Rightarrow> ref \<Rightarrow> imgState stmt" where
  "processImageXObject opts imageObj imageRef st =
     (case dictOf imageObj of
        None \<Rightarrow> Inl (TypeError, st)
      | Some d \<Rightarrow>
          (case (dict_get d ''Width'', dict_get d ''Height'') of
             (Some width, Some height) \<Rightarrow>
               if js_lt width 100 \<or> js_lt height 100
               then Inr (fst st, snd st @ [(imageRef, None)])
               else
                 let f = downsampleFactor opts width height;
                     doc = fst st;
                     doc' = (if dict_has d ''Filter''
                             then (if dict_get d ''Filter'' = Some (PDFName ''JPXDecode'')
                                      \<and> compressionLevel opts = High
                                   then doc else doc)
                             else doc)
                 in Inr (doc', snd st @ [(imageRef, Some f)])
           | _ \<Rightarrow> Inr (fst st, snd st @ [(imageRef, None)])))"

text \<open>
  One entry \<open>[name, objRef]\<close> of the XObject dictionary: the body of the inner loop
  of \<open>processImages\<close>.
\<close>

definition processImages_entry :: "options \<Rightarrow> string \<times> pdfobj \<Rightarrow> imgState stmt" where
  "processImages_entry opts entry st =
     (case snd entry of
        PDFRef objRef \<Rightarrow>
          (case lookup (fst st) objRef of
             None \<Rightarrow> Inl (TypeError, st)
           | Some obj \<Rightarrow>
               (case dictOf obj of
                  None \<Rightarrow> Inl (TypeError, st)
                | Some d \<Rightarrow>
                    if dict_has d ''Subtype'' \<and> dict_get d ''Subtype'' = Some (PDFName ''Image'')
                    then processImageXObject opts obj objRef st
                    else Inr st))
      | _ \<Rightarrow> Inr st)"

text \<open>
  The inner loop runs over \<open>Object.entries(xObject.dict)\<close>, the own enumerable
  string-keyed properties of the value in the field \<open>dict\<close>. pdf-lib (absent from
  the repository) keeps the entries of a dictionary in a \<open>Map\<close> held in that field,
  and the entries of a \<open>Map\<close> are not properties of it: the list is empty whatever
  the dictionary holds. For a stream the field holds the stream's dictionary object, whose
  two properties (its \<open>Map\<close> and its context) are no \<open>PDFRef\<close>, so that the loop
  body skips them at once. In both cases no entry of the XObject dictionary is visited.
\<close>

definition objectEntries :: "entries \<Rightarrow> (string \<times> pdfobj) list" where
  "objectEntries xObject = []"

text \<open>One page: the body of the outer loop of \<open>processImages\<close>.\<close>

definition processImages_page :: "options \<Rightarrow> ref \<Rightarrow> imgState stmt" where
  "processImages_page opts page st =
     (case dictAt (fst st) page of
        None \<Rightarrow> Inl (TypeError, st)
      | Some dict \<Rightarrow>
          if \<not> dict_has dict ''Resources'' then Inr st
          else
            (case dict_get dict ''Resources'' of
               Some (PDFRef resourcesRef) \<Rightarrow>
                 (case dictAt (fst st) resourcesRef of
                    None \<Rightarrow> Inl (TypeError, st)
                  | Some resources \<Rightarrow>
                      if \<not> dict_has resources ''XObject'' then Inr st
                      else
                        (case dict_get resources ''XObject'' of
                           Some (PDFRef xObjectRef) \<Rightarrow>
                             (case dictAt (fst st) xObjectRef of
                                None \<Rightarrow> Inl (TypeError, st)
                              | Some xObject \<Rightarrow>
                                  steps (map (processImages_entry opts)
                                           (objectEntries xObject)) st)
                         | _ \<Rightarrow> Inr st))
             | _ \<Rightarrow> Inr st))"

definition processImages_body :: "options \<Rightarrow> imgState stmt" where
  "processImages_body opts st = steps (map (processImages_page opts) (pages (fst st))) st"

definition processImages :: "options \<Rightarrow> pdfDoc \<Rightarrow> pdfDoc" where
  "processImages opts doc = fst (catching (processImages_body opts) (doc, []))"

section \<open>Pruning stages (enhanced worker)\<close>

definition unnecessaryEntries :: "string list" where
  "unnecessaryEntries =
     [''PageLabels'', ''Names'', ''Dests'', ''ViewerPreferences'',
      ''PageLayout'', ''PageMode'', ''Threads'', ''OpenAction'']"

definition clearInfo :: "pdfDoc stmt" where
  "clearInfo doc = Inr (if Info doc \<noteq> None then doc\<lparr>Info := None\<rparr> else doc)"

text \<open>
  \<open>catalog\<close> is the object found at \<open>trailerInfo.Root\<close>; the first use of it
  throws when the reference does not resolve to a dictionary.
\<close>

definition removeMetadata_body :: "pdfDoc stmt" where
  "removeMetadata_body doc =
     steps
       [deleteIfHas (Root doc) ''Metadata'',
        clearInfo,
        deleteIfHas (Root doc) ''MarkInfo'',
        deleteIfHas (Root doc) ''Outlines'',
        steps (map (\<lambda>page. deleteIfHas page ''Thumb'') (pages doc)),
        steps (map (deleteIfHas (Root doc)) unnecessaryEntries)]
       doc"

definition removeMetadata :: "pdfDoc \<Rightarrow> pdfDoc" where
  "removeMetadata = catching removeMetadata_body"

definition pageEntriesToRemove :: "string list" where
  "pageEntriesToRemove =
     [''Dur'', ''Trans'', ''AA'', ''StructParents'', ''PZ'', ''SeparationInfo'',
      ''Group'', ''Tabs'', ''TemplateInstantiated'', ''PresSteps'', ''UserUnit'']"

text \<open>
  \<open>optimizeResourcesDictionary\<close> receives the object found at the Resources
  reference, here named by that reference.
\<close>

definition optimizeResourcesDictionary :: "ref \<Rightarrow> options \<Rightarrow> pdfDoc stmt" where
  "optimizeResourcesDictionary resources opts doc =
     (if compressionLevel opts = High \<and> \<not> preserveQuality opts
      then deleteIfHas resources ''ProcSet'' doc
      else Inr doc)"

definition optimizeContentStreams_resources :: "options \<Rightarrow> ref \<Rightarrow> pdfDoc stmt" where
  "optimizeContentStreams_resources opts page doc =
     (case dictAt doc page of
        None \<Rightarrow> Inl (TypeError, doc)
      | Some dict \<Rightarrow>
          if dict_has dict ''Resources''
          then (case dict_get dict ''Resources'' of
                  Some (PDFRef resourcesRef) \<Rightarrow> optimizeResourcesDictionary resourcesRef opts doc
                | _ \<Rightarrow> Inr doc)
          else Inr doc)"

text \<open>One page: the body of the loop of \<open>optimizeContentStreams\<close>.\<close>

definition optimizeContentStreams_page :: "options \<Rightarrow> ref \<Rightarrow> pdfDoc stmt" where
  "optimizeContentStreams_page opts page =
     steps
       ((if compressionLevel opts = High
         then (if \<not> preserveQuality opts then [deleteIfHas page ''Annots''] else [])
              @ map (deleteIfHas page) pageEntriesToRemove
         else [])
        @ [optimizeContentStreams_resources opts page])"

definition optimizeContentStreams_body :: "options \<Rightarrow> pdfDoc stmt" where
  "optimizeContentStreams_body opts doc =
     steps (map (optimizeContentStreams_page opts) (pages doc)) doc"

definition optimizeContentStreams :: "options \<Rightarrow> pdfDoc \<Rightarrow> pdfDoc" where
  "optimizeContentStreams opts = catching (optimizeContentStreams_body opts)"

text \<open>
  The last block of \<open>optimizeDocumentStructure\<close>: an inline Names dictionary of the
  catalog loses its EmbeddedFiles entry.
\<close>

definition removeEmbeddedFiles :: "pdfDoc stmt" where
  "removeEmbeddedFiles doc =
     (case dictAt doc (Root doc) of
        None \<Rightarrow> Inl (TypeError, doc)
      | Some catalog \<Rightarrow>
          if dict_has catalog ''Names''
          then (case dict_get catalog ''Names'' of
                  Some (PDFDict namesDict) \<Rightarrow>
                    if dict_has namesDict ''EmbeddedFiles''
                    then Inr (assign (Root doc)
                                (dict_set ''Names''
                                   (PDFDict (dict_delete ''EmbeddedFiles'' namesDict)) catalog)
                                doc)
                    else Inr doc
                | _ \<Rightarrow> Inr doc)
          else Inr doc)"

definition optimizeDocumentStructure_body :: "options \<Rightarrow> pdfDoc stmt" where
  "optimizeDocumentStructure_body opts doc =
     steps
       ((if compressionLevel opts = High then [deleteIfHas (Root doc) ''StructTreeRoot''] else [])
        @ (if compressionLevel opts = High then [deleteIfHas (Root doc) ''OCProperties''] else [])
        @ [removeEmbeddedFiles])
       doc"

definition optimizeDocumentStructure :: "options \<Rightarrow> pdfDoc \<Rightarrow> pdfDoc" where
  "optimizeDocumentStructure opts = catching (optimizeDocumentStructure_body opts)"

section \<open>Saving and the message protocol\<close>

text \<open>
  The options object passed to \<open>pdfDoc.save\<close>; a field that is never assigned is
  \<open>None\<close>.
\<close>

record saveOptions =
  useObjectStreams :: bool
  addDefaultPage :: bool
  updateFieldAppearances :: "bool option"
  compress :: "bool option"
  objectsPerTick :: "nat option"

text \<open>
  \<open>PDFDocument.load\<close> and \<open>pdfDoc.save\<close> belong to pdf-lib and are parameters of
  the model. \<open>load\<close> stands for \<open>file.arrayBuffer()\<close> followed by
  \<open>PDFDocument.load\<close>; a file is its list of bytes and \<open>file.size\<close> its
  length.
\<close>

type_synonym loader = "nat list \<Rightarrow> error + pdfDoc"
type_synonym saver = "saveOptions \<Rightarrow> pdfDoc \<Rightarrow> error + nat list"

text \<open>
  \<open>pdfDoc.getPageCount()\<close>, called by each worker between the load and its first
  stage, inside the outer \<open>try\<close> and outside every \<open>try\<close> of a stage. pdf-lib
  (absent from the repository) walks the page tree from the catalog object on this first
  call and keeps the list of pages it found, which the later calls of
  \<open>getPages\<close> in the stages return: the field \<open>pages\<close> (the walk itself is
  not modelled). The walk begins with a method call on the catalog, so that it throws a
  \<open>TypeError\<close> when the root reference of the trailer does not resolve to a
  dictionary.
\<close>

definition getPageCount :: "pdfDoc \<Rightarrow> error + nat" where
  "getPageCount doc =
     (case dictAt doc (Root doc) of
        None \<Rightarrow> Inl TypeError
      | Some catalog \<Rightarrow> Inr (length (pages doc)))"

definition savePdfWithOptions :: "saver \<Rightarrow> pdfDoc \<Rightarrow> options \<Rightarrow> error + nat list" where
  "savePdfWithOptions save pdfDoc opts =
     save \<lparr>useObjectStreams = True, addDefaultPage = False,
           updateFieldAppearances = Some False, compress = Some True,
           objectsPerTick = (case compressionLevel opts of
                               Low \<Rightarrow> Some 50 | Medium \<Rightarrow> Some 100 | High \<Rightarrow> Some 200)\<rparr>
       pdfDoc"

text \<open>
  The quotient \<open>a / b\<close> of two finite doubles: the double of the exact quotient, an
  infinity when that is out of range, and for a division by zero an infinity or NaN
  instead of an exception.
\<close>

datatype jsnum = Num rat | PosInfinity | NegInfinity | NaN

definition js_round :: "rat \<Rightarrow> jsnum" where
  "js_round x =
     (let y = toDouble x
      in if 2 ^ 1024 \<le> y then PosInfinity
         else if y \<le> - (2 ^ 1024) then NegInfinity
         else Num y)"

definition js_div :: "rat \<Rightarrow> rat \<Rightarrow> jsnum" where
  "js_div a b =
     (if b \<noteq> 0 then js_round (a / b)
      else if a > 0 then PosInfinity
      else if a < 0 then NegInfinity
      else NaN)"

fun js_negative :: "jsnum \<Rightarrow> bool" where
  "js_negative (Num x) = (x < 0)"
| "js_negative NegInfinity = True"
| "js_negative _ = False"

record completeData =
  compressedFile :: "nat list"
  originalSize :: nat
  compressedSize :: nat
  compressionRatio :: jsnum

text \<open>
  The text of an \<open>error\<close> message is a string of the source or of pdf-lib, or the
  sentence the engine gave a \<open>TypeError\<close>.
\<close>

datatype messageText = Text string | EngineSentence

datatype message =
    Progress nat string
  | Complete completeData
  | ErrorMessage messageText

text \<open>
  The \<open>catch\<close> block of \<open>self.onmessage\<close>: it posts
  \<open>error.message || 'Failed to compress PDF. Please try again.'\<close>. The sentence of
  a \<open>TypeError\<close> is not empty.
\<close>

definition onError :: "error \<Rightarrow> message" where
  "onError e =
     ErrorMessage
       (case e of
          Error m \<Rightarrow> Text (if m \<noteq> [] then m else ''Failed to compress PDF. Please try again.'')
        | TypeError \<Rightarrow> EngineSentence)"

text \<open>The tail of the \<open>try\<close> block, from the Blob to the \<open>complete\<close> message.\<close>

definition onComplete :: "nat list \<Rightarrow> nat list \<Rightarrow> message list" where
  "onComplete file compressedPdfBytes =
     [Progress 100 ''Compression complete!'',
      Complete \<lparr>compressedFile = compressedPdfBytes,
                originalSize = length file,
                compressedSize = length compressedPdfBytes,
                compressionRatio =
                  js_div (of_nat (length file) - of_nat (length compressedPdfBytes))
                         (of_nat (length file))\<rparr>]"

text \<open>The four interior stages, in the order \<open>self.onmessage\<close> awaits them.\<close>

definition applyStages :: "options \<Rightarrow> pdfDoc \<Rightarrow> pdfDoc" where
  "applyStages opts pdfDoc =
     optimizeDocumentStructure opts
       (processImages opts (optimizeContentStreams opts (removeMetadata pdfDoc)))"

text \<open>
  \<open>self.onmessage\<close> of the enhanced worker: the messages posted to the main thread,
  in order.
\<close>

definition onmessage :: "loader \<Rightarrow> saver \<Rightarrow> nat list \<Rightarrow> options \<Rightarrow> message list" where
  "onmessage load save file opts =
     Progress 5 ''Loading PDF document...'' #
     (case load file of
        Inl e \<Rightarrow> [onError e]
      | Inr pdfDoc \<Rightarrow>
          Progress 10 ''Analyzing document structure...'' #
          (case getPageCount pdfDoc of
             Inl e \<Rightarrow> [onError e]
           | Inr pageCount \<Rightarrow>
               let d4 = applyStages opts pdfDoc
               in [Progress 15 ''Removing unnecessary metadata...'',
                   Progress 25 ''Optimizing content streams...'',
                   Progress 40 ''Processing embedded images...'',
                   Progress 70 ''Optimizing document structure...'',
                   Progress 85 ''Finalizing compressed document...'']
                  @ (case savePdfWithOptions save d4 opts of
                       Inl e \<Rightarrow> [onError e]
                     | Inr compressedPdfBytes \<Rightarrow> onComplete file compressedPdfBytes)))"

section \<open>The module worker (src/workers/pdfCompression.worker.js)\<close>

text \<open>
  The second worker of the repository has the same protocol and other stages; its stage
  functions have no \<open>try\<close> of their own. Its \<open>optimizeContentStreams\<close> and
  \<open>processImages\<close> have empty bodies.
\<close>

definition removeMetadata_module :: "pdfDoc stmt" where
  "removeMetadata_module doc = steps [deleteIfHas (Root doc) ''Metadata'', clearInfo] doc"

text \<open>Step 1 of the module worker's \<open>self.onmessage\<close>.\<close>

definition stripMetadata_module :: "options \<Rightarrow> pdfDoc stmt" where
  "stripMetadata_module opts doc =
     (if compressionLevel opts = High then removeMetadata_module doc else Inr doc)"

definition removeUnnecessaryObjects :: "options \<Rightarrow> pdfDoc stmt" where
  "removeUnnecessaryObjects opts doc =
     (if compressionLevel opts = Medium \<or> compressionLevel opts = High
      then steps
             (map (\<lambda>page. steps
                     ([deleteIfHas page ''Thumb'']
                      @ (if compressionLevel opts = High \<and> \<not> preserveQuality opts
                         then [deleteIfHas page ''Annots''] else [])))
                  (pages doc))
             doc
      else Inr doc)"

definition savePdfWithOptions_module :: "saver \<Rightarrow> pdfDoc \<Rightarrow> options \<Rightarrow> error + nat list" where
  "savePdfWithOptions_module save pdfDoc opts =
     save \<lparr>useObjectStreams = True, addDefaultPage = False,
           updateFieldAppearances = Some False,
           compress = (if compressionLevel opts = High then Some True else None),
           objectsPerTick = (if compressionLevel opts = High then Some 100 else None)\<rparr>
       pdfDoc"

definition onmessage_module :: "loader \<Rightarrow> saver \<Rightarrow> nat list \<Rightarrow> options \<Rightarrow> message list" where
  "onmessage_module load save file opts =
     Progress 10 ''Loading PDF document...'' #
     (case load file of
        Inl e \<Rightarrow> [onError e]
      | Inr pdfDoc \<Rightarrow>
          Progress 20 ''Analyzing document structure...'' #
          (case getPageCount pdfDoc of
             Inl e \<Rightarrow> [onError e]
           | Inr pageCount \<Rightarrow>
               Progress 30 ''Applying compression strategies...'' #
               (case stripMetadata_module opts pdfDoc of
                  Inl (e, _) \<Rightarrow> [onError e]
                | Inr d1 \<Rightarrow>
                    (if compressionLevel opts = High
                     then [Progress 35 ''Removed unnecessary metadata...''] else [])
                    @ [Progress 50 ''Optimized content streams...'',
                       Progress 70 ''Processed images...'']
                    @ (case removeUnnecessaryObjects opts d1 of
                         Inl (e, _) \<Rightarrow> [onError e]
                       | Inr d2 \<Rightarrow>
                           [Progress 80 ''Removed unnecessary objects...'',
                            Progress 90 ''Finalizing compressed document...'']
                           @ (case savePdfWithOptions_module save d2 opts of
                                Inl e \<Rightarrow> [onError e]
                              | Inr compressedPdfBytes \<Rightarrow>
                                  onComplete file compressedPdfBytes)))))"

section \<open>The inline worker (createPdfCompressionWorker)\<close>

definition onmessage_inline :: "loader \<Rightarrow> saver \<Rightarrow> nat list \<Rightarrow> message list" where
  "onmessage_inline load save file =
     Progress 10 ''Loading PDF document...'' #
     (case load file of
        Inl e \<Rightarrow> [onError e]
      | Inr pdfDoc \<Rightarrow>
          Progress 20 ''Analyzing document structure...'' #
          (case getPageCount pdfDoc of
             Inl e \<Rightarrow> [onError e]
           | Inr pageCount \<Rightarrow>
               Progress 50 ''Applying compression strategies...'' #
               (case save \<lparr>useObjectStreams = True, addDefaultPage = False,
                              updateFieldAppearances = None, compress = Some True,
                              objectsPerTick = None\<rparr> pdfDoc of
                  Inl e \<Rightarrow> [onError e]
                | Inr compressedPdfBytes \<Rightarrow> onComplete file compressedPdfBytes)))"

section \<open>Auxiliary notions\<close>

text \<open>
  The target pixel dimension of the specification, \<open>round(width * f)\<close>, with halves
  rounded up as \<open>Math.round\<close> does. The workers never compute it.
\<close>

definition spec_targetDimension :: "rat \<Rightarrow> rat \<Rightarrow> int" where
  "spec_targetDimension n f = \<lfloor>n * f + 1 / 2\<rfloor>"

text \<open>The state a statement leaves, thrown or not.\<close>

definition stateOf :: "(error \<times> 's) + 's \<Rightarrow> 's" where
  "stateOf r = (case r of Inl (e, s) \<Rightarrow> s | Inr s \<Rightarrow> s)"

text \<open>
  A page whose Resources entry is a direct object, or whose Resources reference leads to
  a dictionary with a direct XObject entry.
\<close>

definition inlineEntry :: "pdfDoc \<Rightarrow> ref \<Rightarrow> bool" where
  "inlineEntry doc page =
     (case dictAt doc page of
        None \<Rightarrow> False
      | Some dict \<Rightarrow>
          (case dict_get dict ''Resources'' of
             None \<Rightarrow> False
           | Some (PDFRef resourcesRef) \<Rightarrow>
               (case dictAt doc resourcesRef of
                  None \<Rightarrow> False
                | Some resources \<Rightarrow>
                    (case dict_get resources ''XObject'' of
                       None \<Rightarrow> False
                     | Some (PDFRef _) \<Rightarrow> False
                     | Some _ \<Rightarrow> True))
           | Some _ \<Rightarrow> True))"

subsection \<open>Pruning as a relation between documents\<close>

text \<open>
  \<open>prunes d d'\<close> says that \<open>d'\<close> is \<open>d\<close> with dictionary keys deleted: the
  same catalog reference and pages, the Info reference kept or cleared, the same
  references resolving to dictionaries, and for each dictionary no new key, the same
  value at Resources, and at Names the same value, none, or an inline dictionary with
  keys deleted. Every statement of the pruning stages relates a document to its result in
  this way, and nothing that decides whether a statement throws depends on more.
\<close>

definition keysLe :: "entries \<Rightarrow> entries \<Rightarrow> bool" where
  "keysLe es es' = (\<forall>k. dict_has es' k \<longrightarrow> dict_has es k)"

definition namesLe :: "pdfobj option \<Rightarrow> pdfobj option \<Rightarrow> bool" where
  "namesLe v v' =
     (v' = None \<or> v' = v \<or> (\<exists>nd nd'. v = Some (PDFDict nd) \<and> v' = Some (PDFDict nd') \<and> keysLe nd nd'))"

definition entriesLe :: "entries \<Rightarrow> entries \<Rightarrow> bool" where
  "entriesLe es es' =
     (keysLe es es' \<and> dict_get es' ''Resources'' = dict_get es ''Resources''
      \<and> namesLe (dict_get es ''Names'') (dict_get es' ''Names''))"

definition prunes :: "pdfDoc \<Rightarrow> pdfDoc \<Rightarrow> bool" where
  "prunes d d' =
     (Root d' = Root d \<and> pages d' = pages d \<and> (Info d' = None \<or> Info d' = Info d)
      \<and> (\<forall>r. case dictAt d r of
               None \<Rightarrow> dictAt d' r = None
             | Some es \<Rightarrow> (\<exists>es'. dictAt d' r = Some es' \<and> entriesLe es es')))"

text \<open>
  A pruning statement: it prunes; when it throws it has changed nothing; once it has
  completed, it completes without a change on every pruning of its result; and where it
  throws it throws on every pruning of that document.
\<close>

definition pruneStep :: "pdfDoc stmt \<Rightarrow> bool" where
  "pruneStep c =
     ((\<forall>d. prunes d (stateOf (c d)))
      \<and> (\<forall>d. isl (c d) \<longrightarrow> stateOf (c d) = d)
      \<and> (\<forall>d d2. \<not> isl (c d) \<longrightarrow> prunes (stateOf (c d)) d2 \<longrightarrow> c d2 = Inr d2)
      \<and> (\<forall>d d'. prunes d d' \<longrightarrow> isl (c d) \<longrightarrow> isl (c d')))"

text \<open>A catalog on which \<open>removeEmbeddedFiles\<close> has nothing to delete.\<close>

definition noEmbeddedFiles :: "entries \<Rightarrow> bool" where
  "noEmbeddedFiles cat =
     (\<forall>nd. dict_get cat ''Names'' = Some (PDFDict nd) \<longrightarrow> \<not> dict_has nd ''EmbeddedFiles'')"

text \<open>The object at \<open>r\<close> is a dictionary with the key \<open>k\<close>.\<close>

definition hasKey :: "pdfDoc \<Rightarrow> ref \<Rightarrow> string \<Rightarrow> bool" where
  "hasKey doc r k = (case dictAt doc r of None \<Rightarrow> False | Some es \<Rightarrow> dict_has es k)"

text \<open>
  The data model of the specification has the catalog and every page node be a
  dictionary: the trailer's root reference and the page references resolve to one.
\<close>

definition wellFormed :: "pdfDoc \<Rightarrow> bool" where
  "wellFormed doc =
     (dictAt doc (Root doc) \<noteq> None
      \<and> list_all (\<lambda>page. dictAt doc page \<noteq> None) (pages doc))"

text \<open>
  The catalog has a Names dictionary, inline or behind a reference, with an
  EmbeddedFiles entry.
\<close>

definition namesEmbeddedFiles :: "pdfDoc \<Rightarrow> bool" where
  "namesEmbeddedFiles doc =
     (case dictAt doc (Root doc) of
        None \<Rightarrow> False
      | Some catalog \<Rightarrow>
          (case dict_get catalog ''Names'' of
             Some (PDFDict namesDict) \<Rightarrow> dict_has namesDict ''EmbeddedFiles''
           | Some (PDFRef r) \<Rightarrow> hasKey doc r ''EmbeddedFiles''
           | _ \<Rightarrow> False))"

text \<open>
  The statements of each stage body as one flat list, the nested loops unrolled.
\<close>

definition removeMetadata_flat :: "ref \<Rightarrow> ref list \<Rightarrow> pdfDoc stmt list" where
  "removeMetadata_flat catalogRef ps =
     [deleteIfHas catalogRef ''Metadata'', clearInfo, deleteIfHas catalogRef ''MarkInfo'',
      deleteIfHas catalogRef ''Outlines'']
     @ map (\<lambda>page. deleteIfHas page ''Thumb'') ps
     @ map (deleteIfHas catalogRef) unnecessaryEntries"

definition optimizeContentStreams_flat :: "options \<Rightarrow> ref list \<Rightarrow> pdfDoc stmt list" where
  "optimizeContentStreams_flat opts ps =
     concat (map (\<lambda>page.
        (if compressionLevel opts = High
         then (if \<not> preserveQuality opts then [deleteIfHas page ''Annots''] else [])
              @ map (deleteIfHas page) pageEntriesToRemove
         else [])
        @ [optimizeContentStreams_resources opts page]) ps)"

definition optimizeDocumentStructure_flat :: "options \<Rightarrow> ref \<Rightarrow> pdfDoc stmt list" where
  "optimizeDocumentStructure_flat opts catalogRef =
     (if compressionLevel opts = High then [deleteIfHas catalogRef ''StructTreeRoot''] else [])
     @ (if compressionLevel opts = High then [deleteIfHas catalogRef ''OCProperties''] else [])
     @ [removeEmbeddedFiles]"

definition removeUnnecessaryObjects_flat :: "options \<Rightarrow> ref list \<Rightarrow> pdfDoc stmt list" where
  "removeUnnecessaryObjects_flat opts ps =
     concat (map (\<lambda>page.
        [deleteIfHas page ''Thumb'']
        @ (if compressionLevel opts = High \<and> \<not> preserveQuality opts
           then [deleteIfHas page ''Annots''] else [])) ps)"

text \<open>The catalog entries of claim C3; Names stands for its EmbeddedFiles entry.\<close>

definition strippedCatalogKeys :: "string list" where
  "strippedCatalogKeys =
     [''Metadata'', ''MarkInfo'', ''Outlines'', ''PageLabels'', ''ViewerPreferences'',
      ''PageLayout'', ''PageMode'', ''Threads'', ''OpenAction'', ''Names'']"

subsection \<open>The message protocol\<close>

text \<open>
  The progress percentages of a sequence of messages, in order, and the contract on
  them: non-decreasing; the sequence ends with the \<open>complete\<close> or the \<open>error\<close>
  message; 100 is emitted exactly when it ends with \<open>complete\<close>, then as the last
  progress value and in the message just before the terminal one, and at most once.
\<close>

fun progressOf :: "message \<Rightarrow> nat option" where
  "progressOf (Progress percent text) = Some percent"
| "progressOf _ = None"

definition progressValues :: "message list \<Rightarrow> nat list" where
  "progressValues ms = List.map_filter progressOf ms"

fun isComplete :: "message \<Rightarrow> bool" where
  "isComplete (Complete r) = True"
| "isComplete _ = False"

fun isError :: "message \<Rightarrow> bool" where
  "isError (ErrorMessage m) = True"
| "isError _ = False"

definition progressContract :: "message list \<Rightarrow> bool" where
  "progressContract ms =
     (sorted (progressValues ms)
      \<and> (isComplete (last ms) \<or> isError (last ms))
      \<and> (100 \<in> set (progressValues ms)) = isComplete (last ms)
      \<and> (isComplete (last ms) \<longrightarrow>
            last (progressValues ms) = 100 \<and> progressOf (last (butlast ms)) = Some 100)
      \<and> (isError (last ms) \<longrightarrow> 100 \<notin> set (progressValues ms))
      \<and> count_list (progressValues ms) 100 \<le> 1)"

section \<open>Example documents\<close>

text \<open>
  Object 7 of each document is its page tree node. \<open>ex_doc\<close> has one page with one
  large image. \<open>ex_dangling_doc\<close> has a
  catalog with a structure tree and a page with annotations whose Resources reference
  does not resolve. \<open>ex_missing_page_doc\<close> lists a page reference that does not
  resolve before the page of \<open>ex_doc\<close>, and the root reference of
  \<open>ex_no_catalog_doc\<close> does not resolve.
\<close>

definition ex_image :: pdfobj where
  "ex_image =
     PDFStream [(''Type'', PDFName ''XObject''), (''Subtype'', PDFName ''Image''),
                (''Width'', PDFNumber 2000), (''Height'', PDFNumber 1500),
                (''Filter'', PDFName ''DCTDecode'')] [255, 216, 255]"

definition ex_icon :: pdfobj where
  "ex_icon =
     PDFStream [(''Subtype'', PDFName ''Image''),
                (''Width'', PDFNumber 50), (''Height'', PDFNumber 50)] [137, 80]"

definition ex_noWidth :: pdfobj where
  "ex_noWidth = PDFStream [(''Subtype'', PDFName ''Image''), (''Height'', PDFNumber 300)] [1]"

definition ex_doc :: pdfDoc where
  "ex_doc =
     \<lparr>indirectObjects =
        [1 \<mapsto> PDFDict [(''Type'', PDFName ''Catalog''), (''Pages'', PDFRef 7),
                          (''Metadata'', PDFRef 9), (''MarkInfo'', PDFDict []),
                          (''PageLabels'', PDFRef 10),
                          (''Names'', PDFDict [(''EmbeddedFiles'', PDFRef 11)])],
         2 \<mapsto> PDFDict [(''Type'', PDFName ''Page''), (''Resources'', PDFRef 3),
                          (''Thumb'', PDFRef 8)],
         3 \<mapsto> PDFDict [(''XObject'', PDFRef 4)],
         4 \<mapsto> PDFDict [(''Im0'', PDFRef 5)],
         5 \<mapsto> ex_image,
         7 \<mapsto> PDFDict [(''Type'', PDFName ''Pages''), (''Kids'', PDFArray [PDFRef 2]),
                          (''Count'', PDFNumber 1)]],
      Root = 1, Info = Some 6, pages = [2]\<rparr>"

definition ex_inline_doc :: pdfDoc where
  "ex_inline_doc =
     \<lparr>indirectObjects =
        [1 \<mapsto> PDFDict [(''Type'', PDFName ''Catalog''), (''Pages'', PDFRef 7)],
         2 \<mapsto> PDFDict [(''Type'', PDFName ''Page''),
                          (''Resources'',
                           PDFDict [(''XObject'', PDFDict [(''Im0'', PDFRef 5)])])],
         3 \<mapsto> PDFDict [(''Type'', PDFName ''Page''), (''Resources'', PDFRef 4)],
         4 \<mapsto> PDFDict [(''XObject'', PDFDict [(''Im0'', PDFRef 5)])],
         5 \<mapsto> ex_image,
         7 \<mapsto> PDFDict [(''Type'', PDFName ''Pages''),
                          (''Kids'', PDFArray [PDFRef 2, PDFRef 3]), (''Count'', PDFNumber 2)]],
      Root = 1, Info = None, pages = [2, 3]\<rparr>"

definition ex_high25 :: options where
  "ex_high25 = \<lparr>quality = 25, compressionLevel = High, preserveQuality = False\<rparr>"

definition ex_low95 :: options where
  "ex_low95 = \<lparr>quality = 95, compressionLevel = Low, preserveQuality = False\<rparr>"

definition ex_dangling_doc :: pdfDoc where
  "ex_dangling_doc =
     \<lparr>indirectObjects =
        [1 \<mapsto> PDFDict [(''Type'', PDFName ''Catalog''), (''Pages'', PDFRef 7),
                          (''Metadata'', PDFRef 9), (''StructTreeRoot'', PDFRef 10)],
         2 \<mapsto> PDFDict [(''Type'', PDFName ''Page''), (''Resources'', PDFRef 3),
                          (''Annots'', PDFRef 8)],
         7 \<mapsto> PDFDict [(''Type'', PDFName ''Pages''), (''Kids'', PDFArray [PDFRef 2]),
                          (''Count'', PDFNumber 1)]],
      Root = 1, Info = Some 6, pages = [2]\<rparr>"

definition ex_missing_page_doc :: pdfDoc where
  "ex_missing_page_doc = ex_doc\<lparr>pages := [12, 2]\<rparr>"

definition ex_load :: loader where
  "ex_load file = Inr ex_dangling_doc"

definition ex_load_fail :: loader where
  "ex_load_fail file = Inl (Error ''Failed to parse PDF document.'')"

definition ex_save :: saver where
  "ex_save saveOptions pdfDoc = Inr [37, 80, 68, 70]"

definition ex_save_fail :: saver where
  "ex_save_fail saveOptions pdfDoc = Inl (Error ''Could not serialize.'')"

definition ex_file_1000000 :: "nat list" where
  "ex_file_1000000 = replicate 1000000 0"

definition ex_bytes_400000 :: "nat list" where
  "ex_bytes_400000 = replicate 400000 0"

definition ex_bytes_1050000 :: "nat list" where
  "ex_bytes_1050000 = replicate 1050000 0"

definition ex_save_400000 :: saver where
  "ex_save_400000 saveOptions pdfDoc = Inr ex_bytes_400000"

definition ex_save_1050000 :: saver where
  "ex_save_1050000 saveOptions pdfDoc = Inr ex_bytes_1050000"

definition ex_no_catalog_doc :: pdfDoc where
  "ex_no_catalog_doc = ex_doc\<lparr>Root := 13\<rparr>"

definition ex_load_no_catalog :: loader where
  "ex_load_no_catalog file = Inr ex_no_catalog_doc"

section \<open>Basic lemmas\<close>

lemmas ex_defs = ex_image_def ex_icon_def ex_noWidth_def ex_doc_def ex_inline_doc_def
  ex_high25_def ex_low95_def

lemmas op_defs = lookup_def dictAt_def dict_has_def dict_get_def dict_delete_def dict_set_def
  assign_def

lemma catching_stateOf: "catching body s = stateOf (body s)"
  by (simp add: catching_def stateOf_def)

text \<open>A property kept by every statement of a sequence is kept by the sequence.\<close>

lemma steps_invariant:
  assumes "\<And>c s. c \<in> set cs \<Longrightarrow> P s \<Longrightarrow> P (stateOf (c s))" and "P s"
  shows "P (stateOf (steps cs s))"
  using assms
proof (induction cs arbitrary: s)
  case Nil
  then show ?case by (simp add: stateOf_def)
next
  case (Cons c cs)
  have P1: "P (stateOf (c s))" using Cons.prems by simp
  show ?case
  proof (cases "c s")
    case (Inl a)
    then show ?thesis using P1 by (simp add: stateOf_def)
  next
    case (Inr s')
    then have "P s'" using P1 by (simp add: stateOf_def)
    then have "P (stateOf (steps cs s'))" using Cons.IH Cons.prems(1) by simp
    then show ?thesis using Inr by simp
  qed
qed

section \<open>The rounding of doubles\<close>

text \<open>
  Evaluation rules for \<open>toDouble\<close> on literals, the doubles of the literals of the
  source, and the sign of the double of a negative number that is not below the smallest
  subnormal in magnitude.
\<close>

lemma bitLength_numeral:
  "bitLength 0 = 0" "bitLength (Suc 0) = Suc 0"
  "bitLength (numeral k) = Suc (bitLength (numeral k div 2))"
  by (subst bitLength.simps, simp add: bitLength.simps[of 0])+

lemma floor_rat_numeral:
  "\<lfloor>numeral a / numeral b :: rat\<rfloor> = numeral a div numeral b"
  "\<lfloor>- (numeral a / numeral b) :: rat\<rfloor> = - numeral a div numeral b"
  "\<lceil>numeral a / numeral b :: rat\<rceil> = - (- numeral a div numeral b)"
  using floor_divide_of_int_eq[of "numeral a" "numeral b", where ?'a = rat]
    floor_divide_of_int_eq[of "- numeral a" "numeral b", where ?'a = rat]
  by (simp_all add: ceiling_def)

lemmas double_defs = toDouble_def js_times_def ilog2_def pow2_def roundHalfEven_def Let_def
  bitLength_numeral floor_rat_numeral

lemma literal_doubles:
  "toDouble (9 / 10) = 8106479329266893 / 2 ^ 53"
  "toDouble (8 / 10) = 3602879701896397 / 2 ^ 52"
  "toDouble (7 / 10) = 3152519739159347 / 2 ^ 52"
  "toDouble (6 / 10) = 5404319552844595 / 2 ^ 53"
  "toDouble (5 / 10) = 1 / 2"
  "toDouble (28 / 100) = 5044031582654956 / 2 ^ 54"
  "toDouble (- 5 / 100) = - 3602879701896397 / 2 ^ 56"
  by (simp_all add: double_defs)

lemma bitLength_upper: "n < 2 ^ bitLength n"
proof (induction n rule: bitLength.induct)
  case (1 n)
  show ?case
  proof (cases "n = 0")
    case True
    then show ?thesis by (simp add: bitLength.simps[of 0])
  next
    case False
    then have "n div 2 < 2 ^ bitLength (n div 2)" using 1 by simp
    then have "n < 2 * 2 ^ bitLength (n div 2)" by linarith
    then show ?thesis using False by (subst bitLength.simps) simp
  qed
qed

lemma bitLength_lower: "0 < n \<Longrightarrow> 2 ^ (bitLength n - 1) \<le> n"
proof (induction n rule: bitLength.induct)
  case (1 n)
  show ?case
  proof (cases "n div 2 = 0")
    case True
    then have "n = 1" using 1(2) by linarith
    then show ?thesis by (simp add: bitLength_numeral)
  next
    case False
    then have ih: "2 ^ (bitLength (n div 2) - 1) \<le> n div 2" using 1 by simp
    have pos: "0 < bitLength (n div 2)" using False by (subst bitLength.simps) simp
    have "bitLength n = Suc (bitLength (n div 2))" using 1(2) by (subst bitLength.simps) simp
    then have "(2::nat) ^ (bitLength n - 1) = 2 * 2 ^ (bitLength (n div 2) - 1)"
      using pos by (cases "bitLength (n div 2)") simp_all
    then show ?thesis using ih by linarith
  qed
qed

lemma pow2_pos: "0 < pow2 k"
  by (simp add: pow2_def)

lemma pow2_powi: "pow2 k = 2 powi k"
  by (simp add: pow2_def power_int_def power_one_over[symmetric] inverse_eq_divide)

lemma pow2_mono: "a \<le> b \<Longrightarrow> pow2 a \<le> pow2 b"
  by (simp add: pow2_powi power_int_increasing)

lemma pow2_ilog2_le:
  assumes "0 < x" shows "pow2 (ilog2 x) \<le> x"
proof (cases "1 \<le> x")
  case True
  let ?n = "nat \<lfloor>x\<rfloor>"
  have n: "0 < ?n" using True by simp
  have b: "0 < bitLength ?n" using n by (subst bitLength.simps) simp
  have "ilog2 x = int (bitLength ?n - 1)" using True b by (simp add: ilog2_def)
  then have "pow2 (ilog2 x) = 2 ^ (bitLength ?n - 1)" by (simp add: pow2_def)
  also have "\<dots> = of_nat (2 ^ (bitLength ?n - 1))" by simp
  also have "\<dots> \<le> of_nat ?n" using bitLength_lower[OF n] by (simp only: of_nat_le_iff)
  also have "\<dots> \<le> x" using True by (simp add: of_nat_nat)
  finally show ?thesis .
next
  case False
  let ?m = "nat (\<lceil>1 / x\<rceil> - 1)"
  have x1: "1 < 1 / x" using assms False by simp
  then have c: "1 \<le> \<lceil>1 / x\<rceil> - 1" by (simp add: less_ceiling_iff)
  have "1 / x \<le> of_int \<lceil>1 / x\<rceil>" by (rule le_of_int_ceiling)
  also have "\<dots> = of_int (int (?m + 1))"
  proof -
    have "int (?m + 1) = \<lceil>1 / x\<rceil>" using c by linarith
    then show ?thesis by simp
  qed
  also have "\<dots> = of_nat (?m + 1)" by (simp only: of_int_of_nat_eq)
  also have "\<dots> \<le> of_nat (2 ^ bitLength ?m)"
    using bitLength_upper[of ?m] by (simp only: of_nat_le_iff)
  finally have "1 / x \<le> 2 ^ bitLength ?m" by simp
  then have "1 / 2 ^ bitLength ?m \<le> x"
    using assms by (simp add: field_simps)
  moreover have "pow2 (ilog2 x) = 1 / 2 ^ bitLength ?m"
    using False by (simp add: ilog2_def pow2_def)
  ultimately show ?thesis by simp
qed

lemma roundHalfEven_neg: "x < - (1 / 2) \<Longrightarrow> roundHalfEven x < 0"
proof -
  assume a: "x < - (1 / 2)"
  then have f: "\<lfloor>x\<rfloor> \<le> - 1" by (simp add: floor_le_iff)
  show ?thesis
  proof (cases "\<lfloor>x\<rfloor> = - 1")
    case True
    then have "x - of_int \<lfloor>x\<rfloor> < 1 / 2" using a by simp
    then show ?thesis using True by (simp add: roundHalfEven_def Let_def)
  next
    case False
    then have "\<lfloor>x\<rfloor> \<le> - 2" using f by linarith
    then show ?thesis by (auto simp add: roundHalfEven_def Let_def)
  qed
qed

lemma toDouble_neg:
  assumes "x < 0" and "1 / 2 ^ 1074 \<le> - x"
  shows "toDouble x < 0"
proof -
  let ?e = "max (ilog2 \<bar>x\<bar> - 52) (- 1074)"
  have ax: "\<bar>x\<bar> = - x" using assms(1) by simp
  have "pow2 ?e \<le> - x"
  proof (cases "ilog2 \<bar>x\<bar> - 52 \<le> - 1074")
    case True
    then have "?e = - 1074" by simp
    then show ?thesis using assms(2) by (simp add: pow2_def)
  next
    case False
    then have e: "?e = ilog2 \<bar>x\<bar> - 52" by simp
    have "pow2 (ilog2 \<bar>x\<bar> - 52) \<le> pow2 (ilog2 \<bar>x\<bar>)"
      by (rule pow2_mono) simp
    also have "\<dots> \<le> \<bar>x\<bar>" using assms(1) by (intro pow2_ilog2_le) simp
    finally show ?thesis using e ax by simp
  qed
  then have "x / pow2 ?e \<le> - 1" using pow2_pos[of ?e] by (simp add: field_simps)
  then have "roundHalfEven (x / pow2 ?e) < 0" by (intro roundHalfEven_neg) simp
  then have "of_int (roundHalfEven (x / pow2 ?e)) * pow2 ?e < 0"
    using pow2_pos[of ?e] by (simp add: mult_neg_pos)
  then show ?thesis using assms(1) by (simp add: toDouble_def Let_def)
qed

lemma js_round_negative:
  "x < 0 \<Longrightarrow> 1 / 2 ^ 1074 \<le> - x \<Longrightarrow> js_negative (js_round x)"
  using toDouble_neg[of x] by (auto simp add: js_round_def Let_def)

section \<open>The image stage never changes the document\<close>

lemma processImageXObject_doc: "fst (stateOf (processImageXObject opts obj r st)) = fst st"
  by (simp add: processImageXObject_def stateOf_def Let_def split: option.splits prod.splits)

lemma processImages_entry_doc: "fst (stateOf (processImages_entry opts entry st)) = fst st"
  using processImageXObject_doc[of opts _ _ st]
  by (auto simp add: processImages_entry_def stateOf_def split: pdfobj.splits option.splits)

lemma processImages_page_doc: "fst (stateOf (processImages_page opts page st)) = fst st"
proof -
  have "fst (stateOf (steps (map (processImages_entry opts) x) st)) = fst st" for x
    by (rule steps_invariant[where P="\<lambda>s. fst s = fst st"]) (auto simp: processImages_entry_doc)
  then show ?thesis
    by (auto simp add: processImages_page_def stateOf_def split: pdfobj.splits option.splits)
qed

lemma processImages_body_doc: "fst (stateOf (processImages_body opts st)) = fst st"
  unfolding processImages_body_def
  by (rule steps_invariant[where P="\<lambda>s. fst s = fst st"]) (auto simp: processImages_page_doc)

lemma processImages_id: "processImages opts doc = doc"
  using processImages_body_doc[of opts "(doc, [])"]
  by (simp add: processImages_def catching_stateOf)

lemma ex_doc_calls:
  "snd (catching (processImages_body ex_high25) (ex_doc, [])) = []"
  by (simp add: catching_def processImages_body_def processImages_page_def objectEntries_def
      ex_defs op_defs)

lemma downsampleFactor_high25:
  "downsampleFactor ex_high25 (PDFNumber 2000) (PDFNumber 1500) = 5044031582654955 / 2 ^ 54"
  by (simp add: downsampleFactor_def js_gt_def ex_high25_def double_defs)

lemma downsampleFactor_low95:
  "downsampleFactor ex_low95 (PDFNumber 2000) (PDFNumber 1500) = 3602879701896397 / 2 ^ 52"
  by (simp add: downsampleFactor_def js_gt_def ex_low95_def double_defs)

section \<open>Pruning statements\<close>

lemma keysLe_refl: "keysLe es es" by (simp add: keysLe_def)

lemma keysLe_trans: "keysLe a b \<Longrightarrow> keysLe b c \<Longrightarrow> keysLe a c" by (auto simp: keysLe_def)

lemma namesLe_refl: "namesLe v v" by (simp add: namesLe_def)

lemma namesLe_trans: "namesLe a b \<Longrightarrow> namesLe b c \<Longrightarrow> namesLe a c"
  by (auto simp: namesLe_def dest: keysLe_trans)

lemma entriesLe_refl: "entriesLe es es"
  by (simp add: entriesLe_def keysLe_refl namesLe_refl)

lemma entriesLe_trans: "entriesLe a b \<Longrightarrow> entriesLe b c \<Longrightarrow> entriesLe a c"
  by (auto simp: entriesLe_def dest: keysLe_trans namesLe_trans)

lemma prunes_refl: "prunes d d"
  by (auto simp: prunes_def entriesLe_refl split: option.splits)

lemma prunes_trans:
  assumes "prunes a b" "prunes b c" shows "prunes a c"
proof -
  have "case dictAt a r of None \<Rightarrow> dictAt c r = None
        | Some es \<Rightarrow> (\<exists>es'. dictAt c r = Some es' \<and> entriesLe es es')" for r
  proof (cases "dictAt a r")
    case None
    then have "dictAt b r = None" using assms(1) by (auto simp: prunes_def split: option.splits dest: spec[of _ r])
    then have "dictAt c r = None" using assms(2) by (auto simp: prunes_def split: option.splits dest: spec[of _ r])
    then show ?thesis using None by simp
  next
    case (Some es)
    then obtain es1 where b: "dictAt b r = Some es1" "entriesLe es es1"
      using assms(1) by (auto simp: prunes_def split: option.splits dest: spec[of _ r])
    then obtain es2 where c: "dictAt c r = Some es2" "entriesLe es1 es2"
      using assms(2) by (auto simp: prunes_def split: option.splits dest: spec[of _ r])
    show ?thesis using Some b c by (auto intro: entriesLe_trans)
  qed
  moreover have "Root c = Root a" "pages c = pages a" "Info c = None \<or> Info c = Info a"
    using assms by (auto simp: prunes_def)
  ultimately show ?thesis by (simp add: prunes_def)
qed

lemma prunes_dictAt_None: "prunes d d' \<Longrightarrow> dictAt d r = None \<Longrightarrow> dictAt d' r = None"
  by (auto simp: prunes_def split: option.splits dest: spec[of _ r])

lemma prunes_dictAt_Some:
  "prunes d d' \<Longrightarrow> dictAt d r = Some es \<Longrightarrow> \<exists>es'. dictAt d' r = Some es' \<and> entriesLe es es'"
  by (auto simp: prunes_def split: option.splits dest: spec[of _ r])

lemma dictAt_assign:
  "dictAt (assign r es d) r' = (if r' = r \<and> dictAt d r \<noteq> None then Some es else dictAt d r')"
proof (cases "lookup d r")
  case None
  then show ?thesis by (simp add: assign_def dictAt_def)
next
  case (Some obj)
  then show ?thesis by (cases obj) (auto simp add: assign_def dictAt_def lookup_def)
qed

lemma assign_fields [simp]:
  "Root (assign r es d) = Root d" "pages (assign r es d) = pages d" "Info (assign r es d) = Info d"
  by (auto simp: assign_def split: option.splits)

lemma dict_has_delete: "dict_has (dict_delete k es) k' = (k' \<noteq> k \<and> dict_has es k')"
  by (induction es) (auto simp: dict_has_def dict_delete_def)

lemma dict_get_delete: "dict_get (dict_delete k es) k' = (if k' = k then None else dict_get es k')"
  by (induction es) (auto simp: dict_get_def dict_delete_def)

lemma dict_has_set: "dict_has (dict_set k v es) k' = dict_has es k'"
  by (induction es) (auto simp: dict_has_def dict_set_def)

lemma dict_get_set:
  "dict_get (dict_set k v es) k' = (if k' = k \<and> dict_has es k then Some v else dict_get es k')"
  by (induction es) (auto simp: dict_get_def dict_has_def dict_set_def)

lemma dict_has_get: "dict_has es k = (dict_get es k \<noteq> None)"
  by (simp add: dict_has_def dict_get_def)

lemma entriesLe_delete: "k \<noteq> ''Resources'' \<Longrightarrow> entriesLe es (dict_delete k es)"
  by (auto simp: entriesLe_def keysLe_def namesLe_def dict_has_delete dict_get_delete)

lemma prunes_assign:
  assumes "dictAt d r = Some es" "entriesLe es es'"
  shows "prunes d (assign r es' d)"
  using assms by (auto simp: prunes_def dictAt_assign entriesLe_refl split: option.splits)

lemma deleteIfHas_None: "dictAt d r = None \<Longrightarrow> deleteIfHas r k d = Inl (TypeError, d)"
  by (simp add: deleteIfHas_def)

lemma deleteIfHas_Some:
  "dictAt d r = Some es \<Longrightarrow>
   deleteIfHas r k d = Inr (if dict_has es k then assign r (dict_delete k es) d else d)"
  by (simp add: deleteIfHas_def)

lemma deleteIfHas_isl: "isl (deleteIfHas r k d) = (dictAt d r = None)"
  by (cases "dictAt d r") (simp_all add: deleteIfHas_def)

lemma pruneStep_deleteIfHas:
  assumes "k \<noteq> ''Resources''" shows "pruneStep (deleteIfHas r k)"
proof -
  have p1: "prunes d (stateOf (deleteIfHas r k d))" for d
  proof (cases "dictAt d r")
    case None
    then show ?thesis by (simp add: deleteIfHas_None stateOf_def prunes_refl)
  next
    case (Some es)
    then show ?thesis using assms
      by (simp add: deleteIfHas_Some stateOf_def prunes_refl prunes_assign entriesLe_delete)
  qed
  have p2: "isl (deleteIfHas r k d) \<Longrightarrow> stateOf (deleteIfHas r k d) = d" for d
    by (cases "dictAt d r") (simp_all add: deleteIfHas_None deleteIfHas_Some stateOf_def)
  have p3: "deleteIfHas r k d2 = Inr d2"
    if h1: "\<not> isl (deleteIfHas r k d)" and h2: "prunes (stateOf (deleteIfHas r k d)) d2" for d d2
  proof -
    obtain es where es: "dictAt d r = Some es"
      using h1 by (auto simp: deleteIfHas_isl)
    let ?d1 = "stateOf (deleteIfHas r k d)"
    have "\<exists>es1. dictAt ?d1 r = Some es1 \<and> \<not> dict_has es1 k"
      using es by (simp add: deleteIfHas_Some stateOf_def dictAt_assign dict_has_delete)
    then obtain es1 where es1: "dictAt ?d1 r = Some es1" "\<not> dict_has es1 k" by blast
    obtain es2 where es2: "dictAt d2 r = Some es2" "entriesLe es1 es2"
      using prunes_dictAt_Some[OF h2 es1(1)] by blast
    then have "\<not> dict_has es2 k" using es1(2) by (auto simp: entriesLe_def keysLe_def)
    then show ?thesis using es2 by (simp add: deleteIfHas_Some)
  qed
  have p4: "isl (deleteIfHas r k d')" if "prunes d d'" "isl (deleteIfHas r k d)" for d d'
  proof -
    have "dictAt d r = None"
      using that(2) by (simp add: deleteIfHas_isl)
    then have "dictAt d' r = None" using that(1) by (simp add: prunes_dictAt_None)
    then show ?thesis by (simp add: deleteIfHas_None)
  qed
  show ?thesis unfolding pruneStep_def using p1 p2 p3 p4 by blast
qed

lemma pruneStep_clearInfo: "pruneStep clearInfo"
proof -
  have a: "prunes d (d\<lparr>Info := None\<rparr>)" for d
    by (auto simp: prunes_def dictAt_def lookup_def entriesLe_refl split: option.splits)
  show ?thesis
    unfolding pruneStep_def
    by (auto simp: clearInfo_def stateOf_def prunes_refl a) (auto simp: prunes_def)
qed

lemma pruneStepD1: "pruneStep c \<Longrightarrow> prunes d (stateOf (c d))"
  by (simp add: pruneStep_def)

lemma pruneStepD2: "pruneStep c \<Longrightarrow> isl (c d) \<Longrightarrow> stateOf (c d) = d"
  by (simp add: pruneStep_def)

lemma pruneStepD3:
  "pruneStep c \<Longrightarrow> \<not> isl (c d) \<Longrightarrow> prunes (stateOf (c d)) d2 \<Longrightarrow> c d2 = Inr d2"
  unfolding pruneStep_def by blast

lemma pruneStepD4: "pruneStep c \<Longrightarrow> prunes d d' \<Longrightarrow> isl (c d) \<Longrightarrow> isl (c d')"
  unfolding pruneStep_def by blast

lemma pruneStep_skip: "pruneStep Inr"
  by (simp add: pruneStep_def stateOf_def prunes_refl)

lemma pruneStep_at:
  assumes c: "\<And>v. pruneStep (c v)"
  shows "pruneStep (\<lambda>d. case dictAt d r of
                            None \<Rightarrow> Inl (TypeError, d)
                          | Some es \<Rightarrow> c (dict_get es ''Resources'') d)"
    (is "pruneStep ?R")
proof -
  have same: "\<exists>es'. dictAt d' r = Some es' \<and> dict_get es' ''Resources'' = dict_get es ''Resources''"
    if "prunes d d'" "dictAt d r = Some es" for d d' es
    using prunes_dictAt_Some[OF that] by (auto simp: entriesLe_def)
  have p1: "prunes d (stateOf (?R d))" for d
  proof (cases "dictAt d r")
    case None
    then show ?thesis by (simp add: stateOf_def prunes_refl)
  next
    case (Some es)
    then show ?thesis using pruneStepD1[OF c, of d "dict_get es ''Resources''"] by simp
  qed
  have p2: "stateOf (?R d) = d" if "isl (?R d)" for d
  proof (cases "dictAt d r")
    case None
    then show ?thesis by (simp add: stateOf_def)
  next
    case (Some es)
    then show ?thesis using that pruneStepD2[OF c, of "dict_get es ''Resources''" d] by simp
  qed
  have p3: "?R d2 = Inr d2" if h1: "\<not> isl (?R d)" and h2: "prunes (stateOf (?R d)) d2" for d d2
  proof -
    obtain es where es: "dictAt d r = Some es"
      using h1 by (cases "dictAt d r") auto
    let ?c = "c (dict_get es ''Resources'')"
    have R: "?R d = ?c d" using es by simp
    have "prunes d d2" using p1[of d] h2 by (rule prunes_trans)
    then obtain es2 where es2: "dictAt d2 r = Some es2"
        "dict_get es2 ''Resources'' = dict_get es ''Resources''"
      using same es by blast
    have "?c d2 = Inr d2" using pruneStepD3[OF c, of "dict_get es ''Resources''" d d2] h1 h2 R
      by simp
    then show ?thesis using es2 by simp
  qed
  have p4: "isl (?R d')" if h1: "prunes d d'" and h2: "isl (?R d)" for d d'
  proof (cases "dictAt d r")
    case None
    then have "dictAt d' r = None" using h1 by (simp add: prunes_dictAt_None)
    then show ?thesis by simp
  next
    case (Some es)
    then obtain es2 where es2: "dictAt d' r = Some es2"
        "dict_get es2 ''Resources'' = dict_get es ''Resources''"
      using same h1 by blast
    have "isl (c (dict_get es ''Resources'') d)" using h2 Some by simp
    then have "isl (c (dict_get es ''Resources'') d')"
      using pruneStepD4[OF c h1] by simp
    then show ?thesis using es2 by simp
  qed
  show ?thesis unfolding pruneStep_def using p1 p2 p3 p4 by blast
qed

lemma optimizeContentStreams_resources_alt:
  "optimizeContentStreams_resources opts page =
     (\<lambda>d. case dictAt d page of
             None \<Rightarrow> Inl (TypeError, d)
           | Some es \<Rightarrow>
               (case dict_get es ''Resources'' of
                  Some (PDFRef rr) \<Rightarrow> optimizeResourcesDictionary rr opts
                | _ \<Rightarrow> Inr) d)"
  by (rule ext)
     (auto simp: optimizeContentStreams_resources_def dict_has_get split: option.splits pdfobj.splits)

lemma pruneStep_optimizeResourcesDictionary: "pruneStep (optimizeResourcesDictionary rr opts)"
proof (cases "compressionLevel opts = High \<and> \<not> preserveQuality opts")
  case True
  then have "optimizeResourcesDictionary rr opts = deleteIfHas rr ''ProcSet''"
    by (auto simp: optimizeResourcesDictionary_def)
  then show ?thesis by (simp add: pruneStep_deleteIfHas)
next
  case False
  then have "optimizeResourcesDictionary rr opts = Inr"
    by (auto simp: optimizeResourcesDictionary_def)
  then show ?thesis by (simp add: pruneStep_skip)
qed

lemma pruneStep_optimizeContentStreams_resources:
  "pruneStep (optimizeContentStreams_resources opts page)"
  unfolding optimizeContentStreams_resources_alt
  by (rule pruneStep_at)
     (auto simp: pruneStep_skip pruneStep_optimizeResourcesDictionary split: option.splits pdfobj.splits)

lemma removeEmbeddedFiles_None:
  "dictAt d (Root d) = None \<Longrightarrow> removeEmbeddedFiles d = Inl (TypeError, d)"
  by (simp add: removeEmbeddedFiles_def)

lemma removeEmbeddedFiles_noop:
  "dictAt d (Root d) = Some cat \<Longrightarrow> noEmbeddedFiles cat \<Longrightarrow> removeEmbeddedFiles d = Inr d"
  by (auto simp: removeEmbeddedFiles_def noEmbeddedFiles_def split: option.splits pdfobj.splits)

lemma removeEmbeddedFiles_Some:
  "dictAt d (Root d) = Some cat \<Longrightarrow>
   \<exists>cat'. removeEmbeddedFiles d = Inr (if noEmbeddedFiles cat then d else assign (Root d) cat' d)
          \<and> entriesLe cat cat' \<and> noEmbeddedFiles cat'"
proof (cases "noEmbeddedFiles cat")
  case True
  assume "dictAt d (Root d) = Some cat"
  then show ?thesis using True
    by (auto simp: removeEmbeddedFiles_noop intro!: exI[of _ cat] entriesLe_refl)
next
  case False
  assume a: "dictAt d (Root d) = Some cat"
  from False obtain nd where nd: "dict_get cat ''Names'' = Some (PDFDict nd)" "dict_has nd ''EmbeddedFiles''"
    by (auto simp: noEmbeddedFiles_def)
  let ?cat' = "dict_set ''Names'' (PDFDict (dict_delete ''EmbeddedFiles'' nd)) cat"
  have h: "dict_has cat ''Names''" using nd by (simp add: dict_has_get)
  have 1: "removeEmbeddedFiles d = Inr (assign (Root d) ?cat' d)"
    using a nd h by (simp add: removeEmbeddedFiles_def)
  have 2: "entriesLe cat ?cat'"
    using nd h
    by (auto simp: entriesLe_def keysLe_def namesLe_def dict_has_set dict_get_set dict_has_delete)
  have 3: "noEmbeddedFiles ?cat'"
    using h by (simp add: noEmbeddedFiles_def dict_get_set dict_has_delete)
  show ?thesis using False 1 2 3 by auto
qed

lemma noEmbeddedFiles_mono: "entriesLe cat cat' \<Longrightarrow> noEmbeddedFiles cat \<Longrightarrow> noEmbeddedFiles cat'"
  by (auto simp: entriesLe_def namesLe_def noEmbeddedFiles_def keysLe_def)

lemma removeEmbeddedFiles_isl: "isl (removeEmbeddedFiles d) = (dictAt d (Root d) = None)"
proof (cases "dictAt d (Root d)")
  case None
  then show ?thesis by (simp add: removeEmbeddedFiles_None)
next
  case (Some cat)
  then show ?thesis using removeEmbeddedFiles_Some[OF Some] by auto
qed

lemma pruneStep_removeEmbeddedFiles: "pruneStep removeEmbeddedFiles"
proof -
  have p1: "prunes d (stateOf (removeEmbeddedFiles d))" for d
  proof (cases "dictAt d (Root d)")
    case None
    then show ?thesis by (simp add: removeEmbeddedFiles_None stateOf_def prunes_refl)
  next
    case (Some cat)
    then show ?thesis using removeEmbeddedFiles_Some[OF Some]
      by (auto simp: stateOf_def prunes_refl prunes_assign)
  qed
  have p2: "isl (removeEmbeddedFiles d) \<Longrightarrow> stateOf (removeEmbeddedFiles d) = d" for d
    by (simp add: removeEmbeddedFiles_isl removeEmbeddedFiles_None stateOf_def)
  have p3: "removeEmbeddedFiles d2 = Inr d2"
    if h1: "\<not> isl (removeEmbeddedFiles d)" and h2: "prunes (stateOf (removeEmbeddedFiles d)) d2"
    for d d2
  proof -
    obtain cat where cat: "dictAt d (Root d) = Some cat"
      using h1 by (auto simp: removeEmbeddedFiles_isl)
    let ?d1 = "stateOf (removeEmbeddedFiles d)"
    have "\<exists>cat1. dictAt ?d1 (Root d) = Some cat1 \<and> noEmbeddedFiles cat1"
      using removeEmbeddedFiles_Some[OF cat] cat by (auto simp: stateOf_def dictAt_assign)
    then obtain cat1 where cat1: "dictAt ?d1 (Root d) = Some cat1" "noEmbeddedFiles cat1" by blast
    have r: "Root d2 = Root d" using h2 p1[of d] by (simp add: prunes_def)
    obtain cat2 where cat2: "dictAt d2 (Root d) = Some cat2" "entriesLe cat1 cat2"
      using prunes_dictAt_Some[OF h2 cat1(1)] by blast
    then show ?thesis using r cat1(2) by (simp add: removeEmbeddedFiles_noop noEmbeddedFiles_mono)
  qed
  have p4: "isl (removeEmbeddedFiles d')" if "prunes d d'" "isl (removeEmbeddedFiles d)" for d d'
    using that prunes_dictAt_None[of d d' "Root d"]
    by (simp add: removeEmbeddedFiles_isl prunes_def)
  show ?thesis unfolding pruneStep_def using p1 p2 p3 p4 by blast
qed

lemma steps_prunes:
  assumes "\<forall>c \<in> set cs. pruneStep c" shows "prunes d (stateOf (steps cs d))"
proof (rule steps_invariant[where P="prunes d"])
  show "prunes d d" by (rule prunes_refl)
next
  fix c s assume "c \<in> set cs" "prunes d s"
  then show "prunes d (stateOf (c s))"
    using assms prunes_trans[of d s "stateOf (c s)"] pruneStepD1[of c s] by auto
qed

lemma steps_rerun:
  assumes "\<forall>c \<in> set cs. pruneStep c" and "prunes (stateOf (steps cs d)) d2"
  shows "stateOf (steps cs d2) = d2 \<and> (\<not> isl (steps cs d) \<longrightarrow> steps cs d2 = Inr d2)"
  using assms
proof (induction cs arbitrary: d)
  case Nil
  then show ?case by (simp add: stateOf_def)
next
  case (Cons c cs)
  have c: "pruneStep c" and cs: "\<forall>c \<in> set cs. pruneStep c" using Cons.prems(1) by simp_all
  show ?case
  proof (cases "c d")
    case (Inl a)
    then have i: "isl (c d)" by simp
    then have "stateOf (c d) = d" using c by (simp add: pruneStepD2)
    then have "stateOf (steps (c # cs) d) = d" using Inl by (simp add: stateOf_def)
    then have "prunes d d2" using Cons.prems(2) by simp
    then have "isl (c d2)" using c i by (simp add: pruneStepD4)
    moreover from this have "stateOf (c d2) = d2" using c by (simp add: pruneStepD2)
    ultimately show ?thesis using Inl by (cases "c d2") (auto simp: stateOf_def)
  next
    case (Inr d1)
    then have s: "stateOf (steps (c # cs) d) = stateOf (steps cs d1)" by simp
    have "prunes d1 (stateOf (steps cs d1))" using cs by (rule steps_prunes)
    then have "prunes d1 d2" using Cons.prems(2) s prunes_trans[of d1 "stateOf (steps cs d1)" d2] by simp
    then have "c d2 = Inr d2" using pruneStepD3[OF c, of d d2] Inr by (simp add: stateOf_def)
    moreover have "stateOf (steps cs d2) = d2 \<and> (\<not> isl (steps cs d1) \<longrightarrow> steps cs d2 = Inr d2)"
      using Cons.IH[OF cs, of d1] Cons.prems(2) s by simp
    ultimately show ?thesis using Inr by simp
  qed
qed

lemma steps_append:
  "steps (as @ bs) s = (case steps as s of Inl e \<Rightarrow> Inl e | Inr s' \<Rightarrow> steps bs s')"
  by (induction as arbitrary: s) (auto split: sum.splits)

lemma steps_flatten: "steps (as @ steps cs # bs) s = steps (as @ cs @ bs) s"
  by (simp add: steps_append split: sum.splits)

lemma steps_concat: "steps (map steps css) s = steps (concat css) s"
  by (induction css arbitrary: s) (auto simp: steps_append split: sum.splits)

lemma removeMetadata_body_flat:
  "removeMetadata_body d = steps (removeMetadata_flat (Root d) (pages d)) d"
proof -
  let ?a = "[deleteIfHas (Root d) ''Metadata'', clearInfo, deleteIfHas (Root d) ''MarkInfo'',
             deleteIfHas (Root d) ''Outlines'']"
  let ?X = "map (\<lambda>page. deleteIfHas page ''Thumb'') (pages d)"
  let ?Y = "map (deleteIfHas (Root d)) unnecessaryEntries"
  have "removeMetadata_body d = steps (?a @ steps ?X # [steps ?Y]) d"
    by (simp add: removeMetadata_body_def)
  also have "\<dots> = steps (?a @ ?X @ [steps ?Y]) d" by (rule steps_flatten)
  also have "\<dots> = steps ((?a @ ?X) @ steps ?Y # []) d" by simp
  also have "\<dots> = steps ((?a @ ?X) @ ?Y @ []) d" by (rule steps_flatten)
  finally show ?thesis by (simp add: removeMetadata_flat_def)
qed

lemma optimizeContentStreams_body_flat:
  "optimizeContentStreams_body opts d = steps (optimizeContentStreams_flat opts (pages d)) d"
proof -
  have "map (optimizeContentStreams_page opts) ps =
        map steps (map (\<lambda>page.
          (if compressionLevel opts = High
           then (if \<not> preserveQuality opts then [deleteIfHas page ''Annots''] else [])
                @ map (deleteIfHas page) pageEntriesToRemove
           else [])
          @ [optimizeContentStreams_resources opts page]) ps)" for ps
    by (simp add: optimizeContentStreams_page_def)
  then show ?thesis
    unfolding optimizeContentStreams_body_def optimizeContentStreams_flat_def
    by (simp only: steps_concat)
qed

lemma optimizeDocumentStructure_body_flat:
  "optimizeDocumentStructure_body opts d = steps (optimizeDocumentStructure_flat opts (Root d)) d"
  by (simp add: optimizeDocumentStructure_body_def optimizeDocumentStructure_flat_def)

lemma unnecessaryEntries_not_Resources: "k \<in> set unnecessaryEntries \<Longrightarrow> k \<noteq> ''Resources''"
  by (auto simp: unnecessaryEntries_def)

lemma pageEntriesToRemove_not_Resources: "k \<in> set pageEntriesToRemove \<Longrightarrow> k \<noteq> ''Resources''"
  by (auto simp: pageEntriesToRemove_def)

lemma pruneStep_removeMetadata_flat: "\<forall>c \<in> set (removeMetadata_flat catalogRef ps). pruneStep c"
  by (auto simp: removeMetadata_flat_def pruneStep_deleteIfHas pruneStep_clearInfo
      unnecessaryEntries_not_Resources)

lemma pruneStep_optimizeContentStreams_flat:
  "\<forall>c \<in> set (optimizeContentStreams_flat opts ps). pruneStep c"
  by (auto simp: optimizeContentStreams_flat_def pruneStep_deleteIfHas
      pruneStep_optimizeContentStreams_resources pageEntriesToRemove_not_Resources)

lemma pruneStep_optimizeDocumentStructure_flat:
  "\<forall>c \<in> set (optimizeDocumentStructure_flat opts catalogRef). pruneStep c"
  by (auto simp: optimizeDocumentStructure_flat_def pruneStep_deleteIfHas
      pruneStep_removeEmbeddedFiles)

lemma prunes_Root: "prunes d d' \<Longrightarrow> Root d' = Root d" by (simp add: prunes_def)

lemma prunes_pages: "prunes d d' \<Longrightarrow> pages d' = pages d" by (simp add: prunes_def)

lemma prunes_removeMetadata: "prunes d (removeMetadata d)"
  by (simp add: removeMetadata_def catching_stateOf removeMetadata_body_flat steps_prunes
      pruneStep_removeMetadata_flat)

lemma prunes_optimizeContentStreams: "prunes d (optimizeContentStreams opts d)"
  by (simp add: optimizeContentStreams_def catching_stateOf optimizeContentStreams_body_flat
      steps_prunes pruneStep_optimizeContentStreams_flat)

lemma prunes_optimizeDocumentStructure: "prunes d (optimizeDocumentStructure opts d)"
  by (simp add: optimizeDocumentStructure_def catching_stateOf optimizeDocumentStructure_body_flat
      steps_prunes pruneStep_optimizeDocumentStructure_flat)

lemma removeMetadata_rerun:
  assumes "prunes (removeMetadata d) d2"
  shows "removeMetadata_body d2 = (if isl (removeMetadata_body d) then removeMetadata_body d2 else Inr d2)
         \<and> removeMetadata d2 = d2"
proof -
  have "prunes d d2" using prunes_removeMetadata assms by (rule prunes_trans)
  then have e: "removeMetadata_flat (Root d2) (pages d2) = removeMetadata_flat (Root d) (pages d)"
    by (simp add: prunes_Root prunes_pages)
  have "prunes (stateOf (steps (removeMetadata_flat (Root d) (pages d)) d)) d2"
    using assms by (simp add: removeMetadata_def catching_stateOf removeMetadata_body_flat)
  from steps_rerun[OF pruneStep_removeMetadata_flat this] e
  show ?thesis
    by (simp add: removeMetadata_def catching_stateOf removeMetadata_body_flat)
qed

lemma optimizeContentStreams_rerun:
  assumes "prunes (optimizeContentStreams opts d) d2"
  shows "optimizeContentStreams_body opts d2 =
           (if isl (optimizeContentStreams_body opts d) then optimizeContentStreams_body opts d2 else Inr d2)
         \<and> optimizeContentStreams opts d2 = d2"
proof -
  have "prunes d d2" using prunes_optimizeContentStreams assms by (rule prunes_trans)
  then have e: "optimizeContentStreams_flat opts (pages d2) = optimizeContentStreams_flat opts (pages d)"
    by (simp add: prunes_pages)
  have "prunes (stateOf (steps (optimizeContentStreams_flat opts (pages d)) d)) d2"
    using assms by (simp add: optimizeContentStreams_def catching_stateOf optimizeContentStreams_body_flat)
  from steps_rerun[OF pruneStep_optimizeContentStreams_flat this] e
  show ?thesis
    by (simp add: optimizeContentStreams_def catching_stateOf optimizeContentStreams_body_flat)
qed

lemma optimizeDocumentStructure_rerun:
  assumes "prunes (optimizeDocumentStructure opts d) d2"
  shows "optimizeDocumentStructure_body opts d2 =
           (if isl (optimizeDocumentStructure_body opts d) then optimizeDocumentStructure_body opts d2 else Inr d2)
         \<and> optimizeDocumentStructure opts d2 = d2"
proof -
  have "prunes d d2" using prunes_optimizeDocumentStructure assms by (rule prunes_trans)
  then have e: "optimizeDocumentStructure_flat opts (Root d2) = optimizeDocumentStructure_flat opts (Root d)"
    by (simp add: prunes_Root)
  have "prunes (stateOf (steps (optimizeDocumentStructure_flat opts (Root d)) d)) d2"
    using assms by (simp add: optimizeDocumentStructure_def catching_stateOf optimizeDocumentStructure_body_flat)
  from steps_rerun[OF pruneStep_optimizeDocumentStructure_flat this] e
  show ?thesis
    by (simp add: optimizeDocumentStructure_def catching_stateOf optimizeDocumentStructure_body_flat)
qed

lemma applyStages_idem_aux:
  fixes opts d
  defines "d1 \<equiv> removeMetadata d"
  defines "d2 \<equiv> optimizeContentStreams opts d1"
  defines "d3 \<equiv> optimizeDocumentStructure opts d2"
  shows "applyStages opts d = d3" and "prunes d1 d3" and "prunes d2 d3"
    and "removeMetadata d3 = d3" and "optimizeContentStreams opts d3 = d3"
    and "optimizeDocumentStructure opts d3 = d3"
    and "applyStages opts d3 = d3"
proof -
  show a: "applyStages opts d = d3"
    by (simp add: applyStages_def processImages_id d1_def d2_def d3_def)
  show p23: "prunes d2 d3" unfolding d3_def by (rule prunes_optimizeDocumentStructure)
  have p12: "prunes d1 d2" unfolding d2_def by (rule prunes_optimizeContentStreams)
  show p13: "prunes d1 d3" using p12 p23 by (rule prunes_trans)
  show f: "removeMetadata d3 = d3" using removeMetadata_rerun[of d d3] p13 by (simp add: d1_def)
  show g: "optimizeContentStreams opts d3 = d3"
    using optimizeContentStreams_rerun[of opts d1 d3] p23 by (simp add: d2_def)
  show h: "optimizeDocumentStructure opts d3 = d3"
    using optimizeDocumentStructure_rerun[of opts d2 d3] prunes_refl[of d3] by (simp add: d3_def)
  show "applyStages opts d3 = d3"
    by (simp add: applyStages_def processImages_id f g h)
qed

lemma steps_all_noop:
  assumes "\<forall>c \<in> set cs. pruneStep c" and "steps cs d = Inr d1" and "prunes d1 d2"
  shows "\<forall>c \<in> set cs. c d2 = Inr d2"
  using assms
proof (induction cs arbitrary: d)
  case Nil
  then show ?case by simp
next
  case (Cons c cs)
  have c: "pruneStep c" and cs: "\<forall>c \<in> set cs. pruneStep c" using Cons.prems(1) by simp_all
  obtain e where e: "c d = Inr e" "steps cs e = Inr d1"
    using Cons.prems(2) by (cases "c d") auto
  have "prunes e (stateOf (steps cs e))" using cs by (rule steps_prunes)
  then have "prunes e d2" using e(2) Cons.prems(3) prunes_trans[of e d1 d2] by (simp add: stateOf_def)
  then have "c d2 = Inr d2" using pruneStepD3[OF c, of d d2] e(1) by (simp add: stateOf_def)
  moreover have "\<forall>c \<in> set cs. c d2 = Inr d2" using Cons.IH[OF cs e(2) Cons.prems(3)] .
  ultimately show ?case by simp
qed

lemma steps_ok:
  assumes "\<forall>c \<in> set cs. pruneStep c" and "\<forall>c \<in> set cs. \<forall>d'. prunes d d' \<longrightarrow> \<not> isl (c d')"
  shows "\<not> isl (steps cs d)"
  using assms
proof (induction cs arbitrary: d)
  case Nil
  then show ?case by simp
next
  case (Cons c cs)
  have c: "pruneStep c" and cs: "\<forall>c \<in> set cs. pruneStep c" using Cons.prems(1) by simp_all
  have "\<not> isl (c d)" using Cons.prems(2) prunes_refl[of d] by simp
  then obtain e where e: "c d = Inr e" by (cases "c d") auto
  have pe: "prunes d e" using pruneStepD1[OF c, of d] e by (simp add: stateOf_def)
  have "\<forall>c \<in> set cs. \<forall>d'. prunes e d' \<longrightarrow> \<not> isl (c d')"
    using Cons.prems(2) pe prunes_trans[of d e] by auto
  then have "\<not> isl (steps cs e)" using Cons.IH[OF cs] by simp
  then show ?case using e by simp
qed

lemma deleteIfHas_noop_absent: "deleteIfHas r k d = Inr d \<Longrightarrow> \<not> hasKey d r k"
proof (cases "dictAt d r")
  case None
  then show ?thesis by (simp add: hasKey_def)
next
  case (Some es)
  assume a: "deleteIfHas r k d = Inr d"
  show ?thesis
  proof
    assume "hasKey d r k"
    then have h: "dict_has es k" using Some by (simp add: hasKey_def)
    then have "assign r (dict_delete k es) d = d" using a Some by (simp add: deleteIfHas_Some)
    then have "dictAt (assign r (dict_delete k es) d) r = Some es" using Some by simp
    then have "dict_delete k es = es" using Some by (simp add: dictAt_assign)
    then have "dict_has (dict_delete k es) k" using h by simp
    then show False by (simp add: dict_has_delete)
  qed
qed

lemma clearInfo_noop: "clearInfo d = Inr d \<Longrightarrow> Info d = None"
proof (rule ccontr)
  assume a: "clearInfo d = Inr d" and b: "Info d \<noteq> None"
  then have "d\<lparr>Info := None\<rparr> = d" by (simp add: clearInfo_def)
  then have "Info (d\<lparr>Info := None\<rparr>) = Info d" by simp
  then show False using b by simp
qed

lemma prunes_resolves: "prunes d d' \<Longrightarrow> (dictAt d' r = None) = (dictAt d r = None)"
  using prunes_dictAt_Some[of d d' r] prunes_dictAt_None[of d d' r]
  by (cases "dictAt d r") auto

lemma prunes_wellFormed: "prunes d d' \<Longrightarrow> wellFormed d \<Longrightarrow> wellFormed d'"
  by (simp add: wellFormed_def list_all_iff prunes_Root prunes_pages prunes_resolves)

lemma deleteIfHas_ok_under:
  "dictAt d r \<noteq> None \<Longrightarrow> prunes d d' \<Longrightarrow> \<not> isl (deleteIfHas r k d')"
  by (simp add: deleteIfHas_isl prunes_resolves)

lemma clearInfo_ok: "\<not> isl (clearInfo d)"
  by (simp add: clearInfo_def)

lemma removeMetadata_wellFormed:
  assumes "wellFormed d"
  shows "removeMetadata_body d = Inr (removeMetadata d)"
proof -
  have c: "dictAt d (Root d) \<noteq> None" and p: "\<And>page. page \<in> set (pages d) \<Longrightarrow> dictAt d page \<noteq> None"
    using assms by (simp_all add: wellFormed_def list_all_iff)
  have "\<not> isl (c d')" if h1: "c \<in> set (removeMetadata_flat (Root d) (pages d))" and h2: "prunes d d'" for c d'
  proof -
    consider k where "c = deleteIfHas (Root d) k" | "c = clearInfo"
      | page where "page \<in> set (pages d)" "c = deleteIfHas page ''Thumb''"
      using h1 by (auto simp: removeMetadata_flat_def)
    then show ?thesis
    proof cases
      case 1
      then show ?thesis using deleteIfHas_ok_under[OF c h2] by simp
    next
      case 2
      then show ?thesis by (simp add: clearInfo_ok)
    next
      case 3
      then show ?thesis using deleteIfHas_ok_under[OF p h2] by simp
    qed
  qed
  then have "\<forall>c \<in> set (removeMetadata_flat (Root d) (pages d)). \<forall>d'. prunes d d' \<longrightarrow> \<not> isl (c d')"
    by blast
  then have "\<not> isl (removeMetadata_body d)"
    using steps_ok[OF pruneStep_removeMetadata_flat] by (simp add: removeMetadata_body_flat)
  then show ?thesis
    by (cases "removeMetadata_body d") (auto simp: removeMetadata_def catching_def)
qed

lemma removeMetadata_removed:
  assumes "wellFormed d" and "prunes (removeMetadata d) d2"
  shows "\<forall>c \<in> set (removeMetadata_flat (Root d) (pages d)). c d2 = Inr d2"
  using steps_all_noop[OF pruneStep_removeMetadata_flat _ assms(2)]
    removeMetadata_wellFormed[OF assms(1)]
  by (simp add: removeMetadata_body_flat)

lemma removeMetadata_catalog:
  assumes "wellFormed d" and "prunes (removeMetadata d) d2"
  shows "Info d2 = None"
    and "k \<in> set ([''Metadata'', ''MarkInfo'', ''Outlines''] @ unnecessaryEntries) \<Longrightarrow> \<not> hasKey d2 (Root d) k"
    and "page \<in> set (pages d) \<Longrightarrow> \<not> hasKey d2 page ''Thumb''"
proof -
  note r = removeMetadata_removed[OF assms]
  have "clearInfo d2 = Inr d2" using r by (simp add: removeMetadata_flat_def)
  then show "Info d2 = None" by (rule clearInfo_noop)
  show "\<not> hasKey d2 (Root d) k" if "k \<in> set ([''Metadata'', ''MarkInfo'', ''Outlines''] @ unnecessaryEntries)"
  proof -
    have "deleteIfHas (Root d) k \<in> set (removeMetadata_flat (Root d) (pages d))"
      using that by (auto simp: removeMetadata_flat_def)
    then have "deleteIfHas (Root d) k d2 = Inr d2" using r by blast
    then show ?thesis by (rule deleteIfHas_noop_absent)
  qed
  show "\<not> hasKey d2 page ''Thumb''" if "page \<in> set (pages d)"
  proof -
    have "deleteIfHas page ''Thumb'' \<in> set (removeMetadata_flat (Root d) (pages d))"
      using that by (auto simp: removeMetadata_flat_def)
    then have "deleteIfHas page ''Thumb'' d2 = Inr d2" using r by blast
    then show ?thesis by (rule deleteIfHas_noop_absent)
  qed
qed

lemma prunes_applyStages: "prunes (removeMetadata d) (applyStages opts d)"
  using applyStages_idem_aux(1,2)[where opts=opts and d=d] by simp

section \<open>The workers' messages and the module worker's stages\<close>

lemma pv_simps [simp]:
  "progressValues [] = []"
  "progressValues (Progress p t # ms) = p # progressValues ms"
  "progressValues (Complete r # ms) = progressValues ms"
  "progressValues (ErrorMessage m # ms) = progressValues ms"
  by (simp_all add: progressValues_def List.map_filter_simps)

lemmas msg_defs = progressContract_def onError_def onComplete_def

lemma progressContract_onmessage: "progressContract (onmessage load save file opts)"
proof (cases "load file")
  case (Inl e)
  then show ?thesis by (simp add: onmessage_def msg_defs)
next
  case (Inr d)
  note l = Inr
  show ?thesis
  proof (cases "getPageCount d")
    case (Inl e)
    then show ?thesis using l by (simp add: onmessage_def msg_defs)
  next
    case (Inr n)
    then show ?thesis using l
      by (cases "savePdfWithOptions save (applyStages opts d) opts")
         (simp_all add: onmessage_def msg_defs)
  qed
qed

lemma progressContract_onmessage_inline: "progressContract (onmessage_inline load save file)"
proof (cases "load file")
  case (Inl e)
  then show ?thesis by (simp add: onmessage_inline_def msg_defs)
next
  case (Inr d)
  note l = Inr
  show ?thesis
  proof (cases "getPageCount d")
    case (Inl e)
    then show ?thesis using l by (simp add: onmessage_inline_def msg_defs)
  next
    case (Inr n)
    then show ?thesis using l
      by (cases "save \<lparr>useObjectStreams = True, addDefaultPage = False,
                         updateFieldAppearances = None, compress = Some True,
                         objectsPerTick = None\<rparr> d")
         (simp_all add: onmessage_inline_def msg_defs)
  qed
qed

lemma progressContract_onmessage_module: "progressContract (onmessage_module load save file opts)"
proof (cases "load file")
  case (Inl e)
  then show ?thesis by (simp add: onmessage_module_def msg_defs)
next
  case (Inr d)
  note l = Inr
  show ?thesis
  proof (cases "getPageCount d")
    case (Inl e)
    then show ?thesis using l by (simp add: onmessage_module_def msg_defs)
  next
    case (Inr n)
    note g = Inr
    show ?thesis
    proof (cases "stripMetadata_module opts d")
      case (Inl a)
      then show ?thesis using l g by (cases a) (simp add: onmessage_module_def msg_defs)
    next
      case (Inr d1)
      note s = Inr
      show ?thesis
      proof (cases "removeUnnecessaryObjects opts d1")
        case (Inl a)
        then show ?thesis using l g s
          by (cases a; cases "compressionLevel opts = High")
             (simp_all add: onmessage_module_def msg_defs)
      next
        case (Inr d2)
        then show ?thesis using l g s
          by (cases "savePdfWithOptions_module save d2 opts"; cases "compressionLevel opts = High")
             (simp_all add: onmessage_module_def msg_defs)
      qed
    qed
  qed
qed

lemma complete_in_onComplete:
  "Complete r \<in> set (onComplete file bytes) \<Longrightarrow>
     r = \<lparr>compressedFile = bytes, originalSize = length file, compressedSize = length bytes,
          compressionRatio = js_div (of_nat (length file) - of_nat (length bytes)) (of_nat (length file))\<rparr>"
  by (simp add: onComplete_def)

lemma onError_not_Complete:
  "onError e \<noteq> Complete r" "Complete r \<noteq> onError e" "isError (onError e)"
  by (simp_all add: onError_def)

lemma complete_in_enh:
  assumes "Complete r \<in> set (onmessage load save file opts)"
  shows "\<exists>d n bytes. load file = Inr d \<and> getPageCount d = Inr n
           \<and> savePdfWithOptions save (applyStages opts d) opts = Inr bytes
           \<and> Complete r \<in> set (onComplete file bytes)"
proof (cases "load file")
  case (Inl e)
  then show ?thesis using assms by (simp add: onmessage_def onError_not_Complete)
next
  case (Inr d)
  note l = Inr
  show ?thesis
  proof (cases "getPageCount d")
    case (Inl e)
    then show ?thesis using assms l by (simp add: onmessage_def onError_not_Complete)
  next
    case (Inr n)
    note g = Inr
    show ?thesis
    proof (cases "savePdfWithOptions save (applyStages opts d) opts")
      case (Inl e)
      then show ?thesis using assms l g
        by (simp add: onmessage_def onError_not_Complete)
    next
      case (Inr bytes)
      then show ?thesis using assms l g by (simp add: onmessage_def)
    qed
  qed
qed

lemma complete_in_inl:
  assumes "Complete r \<in> set (onmessage_inline load save file)"
  shows "\<exists>d n bytes. load file = Inr d \<and> getPageCount d = Inr n
           \<and> save \<lparr>useObjectStreams = True, addDefaultPage = False,
                     updateFieldAppearances = None, compress = Some True,
                     objectsPerTick = None\<rparr> d = Inr bytes
           \<and> Complete r \<in> set (onComplete file bytes)"
proof (cases "load file")
  case (Inl e)
  then show ?thesis using assms
    by (simp add: onmessage_inline_def onError_not_Complete)
next
  case (Inr d)
  note l = Inr
  show ?thesis
  proof (cases "getPageCount d")
    case (Inl e)
    then show ?thesis using assms l
      by (simp add: onmessage_inline_def onError_not_Complete)
  next
    case (Inr n)
    note g = Inr
    show ?thesis
    proof (cases "save \<lparr>useObjectStreams = True, addDefaultPage = False,
                     updateFieldAppearances = None, compress = Some True,
                     objectsPerTick = None\<rparr> d")
      case (Inl e)
      then show ?thesis using assms l g
        by (simp add: onmessage_inline_def onError_not_Complete)
    next
      case (Inr bytes)
      then show ?thesis using assms l g by (simp add: onmessage_inline_def)
    qed
  qed
qed

lemma complete_in_mod:
  assumes "Complete r \<in> set (onmessage_module load save file opts)"
  shows "\<exists>d n d1 d2 bytes. load file = Inr d \<and> getPageCount d = Inr n
           \<and> stripMetadata_module opts d = Inr d1 \<and> removeUnnecessaryObjects opts d1 = Inr d2
           \<and> savePdfWithOptions_module save d2 opts = Inr bytes
           \<and> Complete r \<in> set (onComplete file bytes)"
proof (cases "load file")
  case (Inl e)
  then show ?thesis using assms
    by (simp add: onmessage_module_def onError_not_Complete)
next
  case (Inr d)
  note l = Inr
  show ?thesis
  proof (cases "getPageCount d")
    case (Inl e)
    then show ?thesis using assms l
      by (simp add: onmessage_module_def onError_not_Complete)
  next
    case (Inr n)
    note g = Inr
    show ?thesis
    proof (cases "stripMetadata_module opts d")
      case (Inl a)
      then show ?thesis using assms l g
        by (cases a) (simp add: onmessage_module_def onError_not_Complete)
    next
      case (Inr d1)
      note s = Inr
      show ?thesis
      proof (cases "removeUnnecessaryObjects opts d1")
        case (Inl a)
        then show ?thesis using assms l g s
          by (cases a; cases "compressionLevel opts = High")
             (simp_all add: onmessage_module_def onError_not_Complete)
      next
        case (Inr d2)
        note u = Inr
        show ?thesis
        proof (cases "savePdfWithOptions_module save d2 opts")
          case (Inl e)
          then show ?thesis using assms l g s u
            by (cases "compressionLevel opts = High")
               (simp_all add: onmessage_module_def onError_not_Complete)
        next
          case (Inr bytes)
          then show ?thesis using assms l g s u
            by (cases "compressionLevel opts = High") (simp_all add: onmessage_module_def)
        qed
      qed
    qed
  qed
qed

lemma ratio_facts:
  fixes a b :: nat
  shows "(a > 0 \<longrightarrow> js_div (of_nat a - of_nat b) (of_nat a)
                      = js_round ((of_nat a - of_nat b) / of_nat a))
         \<and> (a < 2 ^ 53 \<and> a < b \<longrightarrow> js_negative (js_div (of_nat a - of_nat b) (of_nat a)))"
proof -
  have neg: "js_negative (js_round ((of_nat a - of_nat b) / of_nat a))"
    if h: "0 < a" "a < 2 ^ 53" "a < b"
  proof -
    let ?x = "(of_nat a - of_nat b) / (of_nat a :: rat)"
    have ab: "(of_nat a :: rat) + 1 \<le> of_nat b"
    proof -
      have "Suc a \<le> b" using h(3) by simp
      then have "(of_nat (Suc a) :: rat) \<le> of_nat b" by (simp only: of_nat_le_iff)
      then show ?thesis by simp
    qed
    have a53: "(of_nat a :: rat) \<le> 2 ^ 1074"
    proof -
      have "(of_nat a :: rat) < of_nat (2 ^ 53)" using h(2) by (simp only: of_nat_less_iff)
      also have "\<dots> = 2 ^ 53" by simp
      also have "\<dots> \<le> (2 :: rat) ^ 1074" by (rule power_increasing) simp_all
      finally show ?thesis by simp
    qed
    have x: "- ?x = (of_nat b - of_nat a) / of_nat a" using h(1) by (simp add: field_simps)
    have lt: "?x < 0" using h(1) ab by (simp add: field_simps)
    have "1 / 2 ^ 1074 \<le> 1 / (of_nat a :: rat)"
      using h(1) a53 by (simp add: frac_le)
    also have "\<dots> \<le> (of_nat b - of_nat a) / of_nat a"
      using h(1) ab by (simp add: divide_right_mono)
    finally have "1 / 2 ^ 1074 \<le> - ?x" using x by simp
    then show ?thesis using lt by (rule js_round_negative[rotated])
  qed
  have zero: "js_negative (js_div (of_nat a - of_nat b) (of_nat a))" if "a = 0" "a < b"
    using that by (simp add: js_div_def)
  have pos: "js_negative (js_div (of_nat a - of_nat b) (of_nat a))"
    if "0 < a" "a < 2 ^ 53" "a < b"
    using neg[OF that] that(1) by (simp add: js_div_def)
  show ?thesis using zero pos by (cases "a = 0") (auto simp: js_div_def)
qed

lemma steps_ok_result:
  assumes "\<forall>c \<in> set cs. pruneStep c" and "\<forall>c \<in> set cs. \<forall>d'. prunes d d' \<longrightarrow> \<not> isl (c d')"
  shows "\<exists>d1. steps cs d = Inr d1 \<and> prunes d d1"
proof -
  have "\<not> isl (steps cs d)" using assms by (rule steps_ok)
  then obtain d1 where d1: "steps cs d = Inr d1" by (cases "steps cs d") auto
  have "prunes d (stateOf (steps cs d))" using assms(1) by (rule steps_prunes)
  then show ?thesis using d1 by (simp add: stateOf_def)
qed

lemma removeUnnecessaryObjects_body_flat:
  "removeUnnecessaryObjects opts d =
     (if compressionLevel opts = Medium \<or> compressionLevel opts = High
      then steps (removeUnnecessaryObjects_flat opts (pages d)) d else Inr d)"
proof -
  have "map (\<lambda>page. steps
                     ([deleteIfHas page ''Thumb'']
                      @ (if compressionLevel opts = High \<and> \<not> preserveQuality opts
                         then [deleteIfHas page ''Annots''] else []))) ps
        = map steps (map (\<lambda>page.
                     [deleteIfHas page ''Thumb'']
                      @ (if compressionLevel opts = High \<and> \<not> preserveQuality opts
                         then [deleteIfHas page ''Annots''] else [])) ps)" for ps
    by simp
  then show ?thesis
    unfolding removeUnnecessaryObjects_def removeUnnecessaryObjects_flat_def
    by (simp only: steps_concat)
qed

lemma pruneStep_removeUnnecessaryObjects_flat:
  "\<forall>c \<in> set (removeUnnecessaryObjects_flat opts ps). pruneStep c"
  by (auto simp: removeUnnecessaryObjects_flat_def pruneStep_deleteIfHas)

lemma wellFormed_catalog: "wellFormed d \<Longrightarrow> dictAt d (Root d) \<noteq> None"
  by (simp add: wellFormed_def)

lemma wellFormed_page: "wellFormed d \<Longrightarrow> page \<in> set (pages d) \<Longrightarrow> dictAt d page \<noteq> None"
  by (simp add: wellFormed_def list_all_iff)

lemma removeUnnecessaryObjects_wellFormed:
  assumes "wellFormed d"
  shows "\<exists>d2. removeUnnecessaryObjects opts d = Inr d2 \<and> prunes d d2
              \<and> (compressionLevel opts \<noteq> Low \<longrightarrow>
                   (\<forall>page \<in> set (pages d). deleteIfHas page ''Thumb'' d2 = Inr d2))"
proof (cases "compressionLevel opts = Medium \<or> compressionLevel opts = High")
  case False
  then have "compressionLevel opts = Low" by (cases "compressionLevel opts") auto
  then show ?thesis using False by (simp add: removeUnnecessaryObjects_body_flat prunes_refl)
next
  case True
  let ?cs = "removeUnnecessaryObjects_flat opts (pages d)"
  have "\<not> isl (c d')" if h1: "c \<in> set ?cs" and h2: "prunes d d'" for c d'
  proof -
    obtain page k where "page \<in> set (pages d)" "c = deleteIfHas page k"
      using h1 by (auto simp: removeUnnecessaryObjects_flat_def split: if_splits)
    then show ?thesis using deleteIfHas_ok_under[OF wellFormed_page[OF assms] h2] by simp
  qed
  then have "\<forall>c \<in> set ?cs. \<forall>d'. prunes d d' \<longrightarrow> \<not> isl (c d')" by blast
  from steps_ok_result[OF pruneStep_removeUnnecessaryObjects_flat this]
  obtain d2 where d2: "steps ?cs d = Inr d2" "prunes d d2" by blast
  have "\<forall>c \<in> set ?cs. c d2 = Inr d2"
    using steps_all_noop[OF pruneStep_removeUnnecessaryObjects_flat d2(1) prunes_refl] .
  moreover have "deleteIfHas page ''Thumb'' \<in> set ?cs" if "page \<in> set (pages d)" for page
    using that by (auto simp: removeUnnecessaryObjects_flat_def)
  ultimately have "\<forall>page \<in> set (pages d). deleteIfHas page ''Thumb'' d2 = Inr d2" by blast
  then show ?thesis using True d2 by (simp add: removeUnnecessaryObjects_body_flat)
qed

lemma dictAt_Info_update [simp]: "dictAt (d\<lparr>Info := x\<rparr>) r = dictAt d r"
  by (simp add: dictAt_def lookup_def)

lemma hasKey_Info_update [simp]: "hasKey (d\<lparr>Info := x\<rparr>) r k = hasKey d r k"
  by (simp add: hasKey_def)

lemma removeMetadata_module_catalog:
  assumes "dictAt d (Root d) \<noteq> None"
  shows "\<exists>d1. removeMetadata_module d = Inr d1 \<and> prunes d d1
              \<and> \<not> hasKey d1 (Root d) ''Metadata'' \<and> Info d1 = None
              \<and> (\<forall>k. k \<noteq> ''Metadata'' \<longrightarrow> hasKey d1 (Root d) k = hasKey d (Root d) k)"
proof -
  obtain es where es: "dictAt d (Root d) = Some es" using assms by auto
  let ?d0 = "if dict_has es ''Metadata'' then assign (Root d) (dict_delete ''Metadata'' es) d else d"
  let ?d1 = "if Info ?d0 \<noteq> None then ?d0\<lparr>Info := None\<rparr> else ?d0"
  have r: "removeMetadata_module d = Inr ?d1"
    using es by (simp add: removeMetadata_module_def deleteIfHas_Some clearInfo_def)
  have p: "prunes d (stateOf (steps [deleteIfHas (Root d) ''Metadata'', clearInfo] d))"
    by (rule steps_prunes) (simp add: pruneStep_deleteIfHas pruneStep_clearInfo)
  have a: "\<not> hasKey ?d1 (Root d) ''Metadata''"
    using es by (simp add: hasKey_def dictAt_assign dict_has_delete)
  have b: "Info ?d1 = None" by simp
  have c: "hasKey ?d1 (Root d) k = hasKey d (Root d) k" if "k \<noteq> ''Metadata''" for k
    using es that by (simp add: hasKey_def dictAt_assign dict_has_delete)
  have "prunes d ?d1" using p r by (simp add: removeMetadata_module_def stateOf_def)
  then show ?thesis using r a b c by blast
qed

lemma stripMetadata_module_wellFormed:
  assumes "wellFormed d"
  shows "\<exists>d1. stripMetadata_module opts d = Inr d1 \<and> prunes d d1"
proof (cases "compressionLevel opts = High")
  case True
  then show ?thesis
    using removeMetadata_module_catalog[OF wellFormed_catalog[OF assms]]
    by (auto simp: stripMetadata_module_def)
next
  case False
  then show ?thesis by (simp add: stripMetadata_module_def prunes_refl)
qed

lemma module_stages_wellFormed:
  assumes "wellFormed d"
  shows "\<exists>d1 d2. stripMetadata_module opts d = Inr d1 \<and> removeUnnecessaryObjects opts d1 = Inr d2"
proof -
  obtain d1 where d1: "stripMetadata_module opts d = Inr d1" "prunes d d1"
    using stripMetadata_module_wellFormed[OF assms] by blast
  have "wellFormed d1" using d1(2) assms by (rule prunes_wellFormed)
  then obtain d2 where "removeUnnecessaryObjects opts d1 = Inr d2"
    using removeUnnecessaryObjects_wellFormed by blast
  then show ?thesis using d1(1) by blast
qed

lemma last_onComplete:
  "last (ms @ onComplete file bytes) =
     Complete \<lparr>compressedFile = bytes, originalSize = length file, compressedSize = length bytes,
          compressionRatio = js_div (of_nat (length file) - of_nat (length bytes)) (of_nat (length file))\<rparr>"
  by (simp add: onComplete_def)

lemma onmessage_last:
  "last (onmessage load save file opts) =
     (case load file of
        Inl e \<Rightarrow> onError e
      | Inr d \<Rightarrow>
          (case getPageCount d of
             Inl e \<Rightarrow> onError e
           | Inr n \<Rightarrow>
               (case savePdfWithOptions save (applyStages opts d) opts of
                  Inl e \<Rightarrow> onError e
                | Inr bytes \<Rightarrow> last (onComplete file bytes))))"
  by (simp add: onmessage_def onComplete_def Let_def split: sum.splits)

lemma onmessage_inline_last:
  "last (onmessage_inline load save file) =
     (case load file of
        Inl e \<Rightarrow> onError e
      | Inr d \<Rightarrow>
          (case getPageCount d of
             Inl e \<Rightarrow> onError e
           | Inr n \<Rightarrow>
               (case save \<lparr>useObjectStreams = True, addDefaultPage = False,
                              updateFieldAppearances = None, compress = Some True,
                              objectsPerTick = None\<rparr> d of
                  Inl e \<Rightarrow> onError e
                | Inr bytes \<Rightarrow> last (onComplete file bytes))))"
  by (simp add: onmessage_inline_def onComplete_def split: sum.splits)

lemma onmessage_module_last:
  "load file = Inr d \<Longrightarrow> getPageCount d = Inr n \<Longrightarrow>
   stripMetadata_module opts d = Inr d1 \<Longrightarrow> removeUnnecessaryObjects opts d1 = Inr d2 \<Longrightarrow>
   last (onmessage_module load save file opts) =
     (case savePdfWithOptions_module save d2 opts of
        Inl e \<Rightarrow> onError e
      | Inr bytes \<Rightarrow> last (onComplete file bytes))"
  by (simp add: onmessage_module_def onComplete_def split: sum.splits)

lemma wellFormed_getPageCount: "wellFormed d \<Longrightarrow> getPageCount d = Inr (length (pages d))"
  by (auto simp: wellFormed_def getPageCount_def)

lemmas stage_defs = removeMetadata_def removeMetadata_body_def optimizeContentStreams_def
  optimizeContentStreams_body_def optimizeContentStreams_page_def
  optimizeContentStreams_resources_def optimizeResourcesDictionary_def
  optimizeDocumentStructure_def optimizeDocumentStructure_body_def removeEmbeddedFiles_def
  deleteIfHas_def clearInfo_def catching_def unnecessaryEntries_def pageEntriesToRemove_def
  applyStages_def

lemma ex_doc_wellFormed: "wellFormed ex_doc"
  by (simp add: wellFormed_def ex_defs op_defs)

lemma ex_dangling_wellFormed: "wellFormed ex_dangling_doc"
  by (simp add: wellFormed_def ex_dangling_doc_def op_defs)

lemma ex_dangling_fails_first:
  "isl (optimizeContentStreams_body ex_high25 (removeMetadata ex_dangling_doc))"
  by (simp add: stage_defs ex_dangling_doc_def ex_high25_def op_defs)


lemma ex_dangling_fails_second:
  "isl (optimizeContentStreams_body ex_high25 (applyStages ex_high25 ex_dangling_doc))"
  by (simp add: stage_defs processImages_id ex_dangling_doc_def ex_high25_def op_defs)

lemma ex_missing_page_kept:
  "hasKey (applyStages ex_low95 ex_missing_page_doc) 1 ''PageLabels''
   \<and> hasKey (applyStages ex_low95 ex_missing_page_doc) 2 ''Thumb''"
  by (simp add: stage_defs processImages_id ex_missing_page_doc_def ex_defs op_defs hasKey_def)

lemma ex_doc_keys:
  "hasKey ex_doc 1 ''Metadata'' \<and> hasKey ex_doc 1 ''MarkInfo'' \<and> hasKey ex_doc 1 ''PageLabels''
   \<and> hasKey ex_doc 2 ''Thumb'' \<and> namesEmbeddedFiles ex_doc \<and> Info ex_doc = Some 6
   \<and> Root ex_doc = 1 \<and> pages ex_doc = [2]"
  by (simp add: ex_defs op_defs hasKey_def namesEmbeddedFiles_def)

lemma ex_module_low:
  "stripMetadata_module ex_low95 ex_doc = Inr ex_doc
   \<and> removeUnnecessaryObjects ex_low95 ex_doc = Inr ex_doc"
  by (simp add: stripMetadata_module_def removeUnnecessaryObjects_def ex_low95_def)

lemma ex_module_high_markinfo:
  "hasKey (stateOf (stripMetadata_module ex_high25 ex_doc)) 1 ''MarkInfo''"
  by (simp add: stripMetadata_module_def removeMetadata_module_def deleteIfHas_def clearInfo_def
      stateOf_def ex_defs op_defs hasKey_def)

lemma strippedCatalogKeys_sub:
  "k \<in> set strippedCatalogKeys \<Longrightarrow>
   k \<in> set ([''Metadata'', ''MarkInfo'', ''Outlines''] @ unnecessaryEntries)"
  by (auto simp: strippedCatalogKeys_def unnecessaryEntries_def)

lemma Names_stripped: "''Names'' \<in> set strippedCatalogKeys"
  by (simp add: strippedCatalogKeys_def)

lemma no_Names_no_EmbeddedFiles:
  "\<not> hasKey d (Root d) ''Names'' \<Longrightarrow> \<not> namesEmbeddedFiles d"
proof (cases "dictAt d (Root d)")
  case None
  then show ?thesis by (simp add: namesEmbeddedFiles_def)
next
  case (Some cat)
  assume "\<not> hasKey d (Root d) ''Names''"
  then have "dict_get cat ''Names'' = None" using Some by (simp add: hasKey_def dict_has_get)
  then show ?thesis using Some by (simp add: namesEmbeddedFiles_def)
qed

lemma removeMetadata_stripped:
  assumes w: "wellFormed d" and p: "prunes (removeMetadata d) d2"
  shows "(\<forall>k \<in> set strippedCatalogKeys. \<not> hasKey d2 (Root d) k)
         \<and> \<not> namesEmbeddedFiles d2 \<and> Info d2 = None"
proof -
  have k: "\<not> hasKey d2 (Root d) k" if "k \<in> set strippedCatalogKeys" for k
    using removeMetadata_catalog(2)[OF w p strippedCatalogKeys_sub[OF that]] .
  have r: "Root d2 = Root d"
    using prunes_Root[OF p] prunes_Root[OF prunes_removeMetadata[of d]] by simp
  have "\<not> hasKey d2 (Root d2) ''Names''" using k[OF Names_stripped] r by simp
  then have n: "\<not> namesEmbeddedFiles d2" by (rule no_Names_no_EmbeddedFiles)
  show ?thesis using k n removeMetadata_catalog(1)[OF w p] by blast
qed

lemma ex_lengths:
  "length ex_file_1000000 = 1000000" "length ex_bytes_400000 = 400000"
  "length ex_bytes_1050000 = 1050000"
  by (simp_all only: ex_file_1000000_def ex_bytes_400000_def ex_bytes_1050000_def length_replicate)

lemma optimizeDocumentStructure_body_ok:
  assumes "dictAt d (Root d) \<noteq> None"
  shows "\<not> isl (optimizeDocumentStructure_body opts d)"
proof -
  have "\<not> isl (c d')"
    if h1: "c \<in> set (optimizeDocumentStructure_flat opts (Root d))" and h2: "prunes d d'" for c d'
  proof -
    consider k where "c = deleteIfHas (Root d) k" | "c = removeEmbeddedFiles"
      using h1 by (auto simp: optimizeDocumentStructure_flat_def split: if_splits)
    then show ?thesis
    proof cases
      case 1
      then show ?thesis using deleteIfHas_ok_under[OF assms h2] by simp
    next
      case 2
      then show ?thesis
        using assms h2 by (simp add: removeEmbeddedFiles_isl prunes_Root prunes_resolves)
    qed
  qed
  then have "\<forall>c \<in> set (optimizeDocumentStructure_flat opts (Root d)).
               \<forall>d'. prunes d d' \<longrightarrow> \<not> isl (c d')"
    by blast
  then show ?thesis
    using steps_ok[OF pruneStep_optimizeDocumentStructure_flat]
    by (simp add: optimizeDocumentStructure_body_flat)
qed

lemma prunes_applyStages_whole: "prunes d (applyStages opts d)"
  using prunes_removeMetadata[of d] prunes_applyStages[of d opts] by (rule prunes_trans)

lemma ex_no_catalog_fails:
  "isl (optimizeDocumentStructure_body ex_high25 (applyStages ex_high25 ex_no_catalog_doc))
   \<and> isl (optimizeDocumentStructure_body ex_high25
           (optimizeContentStreams ex_high25 (removeMetadata ex_no_catalog_doc)))"
  by (simp add: stage_defs processImages_id ex_no_catalog_doc_def ex_defs op_defs)

lemma ex_missing_page_fails:
  "isl (removeMetadata_body (applyStages ex_high25 ex_missing_page_doc))
   \<and> isl (removeMetadata_body ex_missing_page_doc)"
  by (simp add: stage_defs processImages_id ex_missing_page_doc_def ex_defs op_defs)






lemma ex_dangling_keys:
  "hasKey ex_dangling_doc 2 ''Annots'' \<and> hasKey ex_dangling_doc 1 ''StructTreeRoot''
   \<and> Root ex_dangling_doc = 1 \<and> pages ex_dangling_doc = [2]
   \<and> \<not> hasKey (applyStages ex_high25 ex_dangling_doc) 2 ''Annots''"
  by (simp add: stage_defs processImages_id ex_dangling_doc_def ex_high25_def op_defs hasKey_def)

lemma ex_no_catalog_count: "getPageCount ex_no_catalog_doc = Inl TypeError"
  by (simp add: getPageCount_def ex_no_catalog_doc_def ex_defs op_defs)

lemma js_div_examples:
  "js_div (1000000 - 400000) 1000000 = Num (toDouble (6 / 10))"
  "js_div (1000000 - 1050000) 1000000 = Num (toDouble (- 5 / 100))"
  "js_negative (Num (toDouble (- 5 / 100)))"
  by (simp_all add: js_div_def js_round_def double_defs)

lemma ex_dangling_count: "getPageCount ex_dangling_doc = Inr 1"
  using wellFormed_getPageCount[OF ex_dangling_wellFormed] ex_dangling_keys by simp

section \<open>Claims about the image transform policy\<close>

text \<open>
  C1 (amended). For an image XObject whose Width and Height are the numbers \<open>w\<close> and
  \<open>h\<close>, \<open>processImageXObject\<close> leaves the document as it is and its factor depends
  on \<open>w\<close>, \<open>h\<close>, the compression level and the quality only: with \<open>w < 100\<close> or
  \<open>h < 100\<close> it returns before computing a factor, whatever the options; otherwise the
  factor is the base factor of the level and quality, times 0.8 when \<open>w > 1000\<close> or
  \<open>h > 1000\<close>, times 0.7 when the level is high and the quality below 30, the literals
  and the products being doubles. The factor is within \<open>2 ^ - 52\<close> of the exact
  product. For 2000 by 1500 at level high and quality 25 it is the double
  0.27999999999999997, one unit in the last place below the double 0.28; at level low
  and quality 95 it is 1.0 for an image with neither dimension above 1000.
\<close>

theorem C1_scale_factor:
  "dict_get d ''Width'' = Some (PDFNumber w) \<Longrightarrow> dict_get d ''Height'' = Some (PDFNumber h) \<Longrightarrow>
   processImageXObject opts (PDFStream d payload) imageRef (doc, calls) =
     Inr (doc, calls @ [(imageRef,
       if w < 100 \<or> h < 100 then None
       else Some (downsampleFactor opts (PDFNumber w) (PDFNumber h)))])
   \<and> downsampleFactor opts (PDFNumber w) (PDFNumber h) =
       (let base = (case compressionLevel opts of
                      Low \<Rightarrow> if quality opts > 80 then 1 else toDouble (9 / 10)
                    | Medium \<Rightarrow> if quality opts > 60 then toDouble (8 / 10) else toDouble (7 / 10)
                    | High \<Rightarrow> if quality opts > 40 then toDouble (6 / 10) else toDouble (5 / 10));
            large = (if w > 1000 \<or> h > 1000 then js_times base (toDouble (8 / 10)) else base)
        in if compressionLevel opts = High \<and> quality opts < 30
           then js_times large (toDouble (7 / 10)) else large)
   \<and> \<bar>downsampleFactor opts (PDFNumber w) (PDFNumber h)
        - (case compressionLevel opts of
             Low \<Rightarrow> if quality opts > 80 then 1 else 9 / 10
           | Medium \<Rightarrow> if quality opts > 60 then 8 / 10 else 7 / 10
           | High \<Rightarrow> if quality opts > 40 then 6 / 10 else 5 / 10)
          * (if w > 1000 \<or> h > 1000 then 8 / 10 else 1)
          * (if compressionLevel opts = High \<and> quality opts < 30 then 7 / 10 else 1)\<bar>
       \<le> 1 / 2 ^ 52
   \<and> (w = 2000 \<and> h = 1500 \<and> compressionLevel opts = High \<and> quality opts = 25 \<longrightarrow>
        downsampleFactor opts (PDFNumber w) (PDFNumber h) = 5044031582654955 / 2 ^ 54)
   \<and> (w \<le> 1000 \<and> h \<le> 1000 \<and> compressionLevel opts = Low \<and> quality opts = 95 \<longrightarrow>
        downsampleFactor opts (PDFNumber w) (PDFNumber h) = 1)"
proof -
  assume wd: "dict_get d ''Width'' = Some (PDFNumber w)"
    and ht: "dict_get d ''Height'' = Some (PDFNumber h)"
  have call: "processImageXObject opts (PDFStream d payload) imageRef (doc, calls) =
     Inr (doc, calls @ [(imageRef,
       if w < 100 \<or> h < 100 then None
       else Some (downsampleFactor opts (PDFNumber w) (PDFNumber h)))])"
    using wd ht by (auto simp add: processImageXObject_def js_lt_def Let_def)
  have shape: "downsampleFactor opts (PDFNumber w) (PDFNumber h) =
       (let base = (case compressionLevel opts of
                      Low \<Rightarrow> if quality opts > 80 then 1 else toDouble (9 / 10)
                    | Medium \<Rightarrow> if quality opts > 60 then toDouble (8 / 10) else toDouble (7 / 10)
                    | High \<Rightarrow> if quality opts > 40 then toDouble (6 / 10) else toDouble (5 / 10));
            large = (if w > 1000 \<or> h > 1000 then js_times base (toDouble (8 / 10)) else base)
        in if compressionLevel opts = High \<and> quality opts < 30
           then js_times large (toDouble (7 / 10)) else large)"
    by (simp add: downsampleFactor_def js_gt_def Let_def)
  have near: "\<bar>downsampleFactor opts (PDFNumber w) (PDFNumber h)
        - (case compressionLevel opts of
             Low \<Rightarrow> if quality opts > 80 then 1 else 9 / 10
           | Medium \<Rightarrow> if quality opts > 60 then 8 / 10 else 7 / 10
           | High \<Rightarrow> if quality opts > 40 then 6 / 10 else 5 / 10)
          * (if w > 1000 \<or> h > 1000 then 8 / 10 else 1)
          * (if compressionLevel opts = High \<and> quality opts < 30 then 7 / 10 else 1)\<bar>
       \<le> 1 / 2 ^ 52"
  proof (cases "compressionLevel opts")
    case Low
    then show ?thesis
      by (cases "quality opts > 80"; cases "w > 1000 \<or> h > 1000")
         (simp_all add: downsampleFactor_def js_gt_def double_defs)
  next
    case Medium
    then show ?thesis
      by (cases "quality opts > 60"; cases "w > 1000 \<or> h > 1000")
         (simp_all add: downsampleFactor_def js_gt_def double_defs)
  next
    case High
    then show ?thesis
      by (cases "quality opts > 40"; cases "w > 1000 \<or> h > 1000"; cases "quality opts < 30")
         (simp_all add: downsampleFactor_def js_gt_def double_defs)
  qed
  have high25: "w = 2000 \<and> h = 1500 \<and> compressionLevel opts = High \<and> quality opts = 25 \<longrightarrow>
        downsampleFactor opts (PDFNumber w) (PDFNumber h) = 5044031582654955 / 2 ^ 54"
    by (simp add: downsampleFactor_def js_gt_def double_defs)
  have low95: "w \<le> 1000 \<and> h \<le> 1000 \<and> compressionLevel opts = Low \<and> quality opts = 95 \<longrightarrow>
        downsampleFactor opts (PDFNumber w) (PDFNumber h) = 1"
    by (simp add: downsampleFactor_def js_gt_def Let_def)
  show ?thesis using call shape near high25 low95 by blast
qed

theorem C1_scale_factor_witness:
  "processImageXObject ex_high25 ex_image 5 (ex_doc, [])
     = Inr (ex_doc, [(5, Some (5044031582654955 / 2 ^ 54))])
   \<and> downsampleFactor ex_high25 (PDFNumber 2000) (PDFNumber 1500) = 5044031582654955 / 2 ^ 54
   \<and> \<bar>downsampleFactor ex_high25 (PDFNumber 2000) (PDFNumber 1500) - 28 / 100\<bar> \<le> 1 / 2 ^ 52
   \<and> processImageXObject ex_low95 ex_icon 5 (ex_doc, []) = Inr (ex_doc, [(5, None)])
   \<and> downsampleFactor ex_low95 (PDFNumber 800) (PDFNumber 600) = 1"
proof -
  have a: "dict_get [(''Type'', PDFName ''XObject''), (''Subtype'', PDFName ''Image''),
                     (''Width'', PDFNumber 2000), (''Height'', PDFNumber 1500),
                     (''Filter'', PDFName ''DCTDecode'')] ''Width'' = Some (PDFNumber 2000)"
    and b: "dict_get [(''Type'', PDFName ''XObject''), (''Subtype'', PDFName ''Image''),
                     (''Width'', PDFNumber 2000), (''Height'', PDFNumber 1500),
                     (''Filter'', PDFName ''DCTDecode'')] ''Height'' = Some (PDFNumber 1500)"
    by (simp_all add: dict_get_def)
  have c: "dict_get [(''Subtype'', PDFName ''Image''), (''Width'', PDFNumber 50),
                     (''Height'', PDFNumber 50)] ''Width'' = Some (PDFNumber 50)"
    and d: "dict_get [(''Subtype'', PDFName ''Image''), (''Width'', PDFNumber 50),
                     (''Height'', PDFNumber 50)] ''Height'' = Some (PDFNumber 50)"
    by (simp_all add: dict_get_def)
  have e: "dict_get [(''Width'', PDFNumber 800), (''Height'', PDFNumber 600)] ''Width''
             = Some (PDFNumber 800)"
    and f: "dict_get [(''Width'', PDFNumber 800), (''Height'', PDFNumber 600)] ''Height''
             = Some (PDFNumber 600)"
    by (simp_all add: dict_get_def)
  show ?thesis
    using C1_scale_factor[OF a b, of ex_high25 "[255, 216, 255]" 5 ex_doc "[]"]
      C1_scale_factor[OF c d, of ex_low95 "[137, 80]" 5 ex_doc "[]"]
      C1_scale_factor[OF e f, of ex_low95 "[]" 0 ex_doc "[]"]
    by (simp add: ex_image_def ex_icon_def ex_high25_def ex_low95_def)
qed

text \<open>
  The claim as stated gives the factor 1.0 at level low and quality 95 for any image; for
  the 2000 by 1500 image the worker computes the double 0.8. It also gives 0.28 for that
  image at level high and quality 25, where the product of the doubles 0.5, 0.8 and 0.7 is
  not the double 0.28.
\<close>

theorem C1_low95_counterexample:
  "processImageXObject ex_low95 ex_image 5 (ex_doc, [])
     = Inr (ex_doc, [(5, Some (toDouble (8 / 10)))])
   \<and> downsampleFactor ex_low95 (PDFNumber 2000) (PDFNumber 1500) \<noteq> 1
   \<and> downsampleFactor ex_high25 (PDFNumber 2000) (PDFNumber 1500) \<noteq> toDouble (28 / 100)
   \<and> downsampleFactor ex_high25 (PDFNumber 2000) (PDFNumber 1500) < toDouble (28 / 100)"
proof -
  have a: "processImageXObject ex_low95 ex_image 5 (ex_doc, [])
     = Inr (ex_doc, [(5, Some (downsampleFactor ex_low95 (PDFNumber 2000) (PDFNumber 1500)))])"
    by (simp add: processImageXObject_def ex_image_def dict_get_def dict_has_def js_lt_def)
  have b: "toDouble (8 / 10) = 3602879701896397 / 2 ^ 52"
    "toDouble (28 / 100) = 5044031582654956 / 2 ^ 54"
    by (simp_all only: literal_doubles)
  show ?thesis
    unfolding a b downsampleFactor_high25 downsampleFactor_low95 by simp
qed

text \<open>
  C4 (amended). The image stage computes a scale factor for the eligible images it
  reaches and re-encodes nothing: for every document and all options, whatever the
  filter of an image, the document after \<open>processImages\<close> is the document before it.
\<close>

theorem C4_images_unchanged:
  "processImages opts doc = doc
   \<and> fst (stateOf (processImages_body opts (doc, calls))) = doc
   \<and> fst (stateOf (processImageXObject opts imageObj imageRef (doc, calls))) = doc"
proof -
  have stage: "processImages opts doc = doc" by (rule processImages_id)
  have body: "fst (stateOf (processImages_body opts (doc, calls))) = doc"
    using processImages_body_doc[of opts "(doc, calls)"] by simp
  have image: "fst (stateOf (processImageXObject opts imageObj imageRef (doc, calls))) = doc"
    using processImageXObject_doc[of opts imageObj imageRef "(doc, calls)"] by simp
  show ?thesis using stage body image by simp
qed

text \<open>
  The claim as stated has the 2000 by 1500 image of the example re-encoded at 560 by 420
  at level high and quality 25. The stage reaches no image, since its inner loop runs over
  an empty list; \<open>processImageXObject\<close> called on the image computes its factor and
  returns; the image stream is as it was.
\<close>

theorem C4_reencode_counterexample:
  "lookup ex_doc 5 = Some ex_image
   \<and> snd (catching (processImages_body ex_high25) (ex_doc, [])) = []
   \<and> processImageXObject ex_high25 ex_image 5 (ex_doc, [])
       = Inr (ex_doc, [(5, Some (5044031582654955 / 2 ^ 54))])
   \<and> spec_targetDimension 2000 (28 / 100) = 560
   \<and> spec_targetDimension 1500 (28 / 100) = 420
   \<and> lookup (processImages ex_high25 ex_doc) 5 = Some ex_image
   \<and> Option.bind (dictAt (processImages ex_high25 ex_doc) 5) (\<lambda>d. dict_get d ''Width'')
       = Some (PDFNumber 2000)
   \<and> Option.bind (dictAt (processImages ex_high25 ex_doc) 5) (\<lambda>d. dict_get d ''Height'')
       = Some (PDFNumber 1500)"
proof -
  have t: "spec_targetDimension 2000 (28 / 100) = 560" "spec_targetDimension 1500 (28 / 100) = 420"
    unfolding spec_targetDimension_def by (simp_all add: floor_unique)
  have c: "processImageXObject ex_high25 ex_image 5 (ex_doc, [])
       = Inr (ex_doc, [(5, Some (downsampleFactor ex_high25 (PDFNumber 2000) (PDFNumber 1500)))])"
    by (simp add: processImageXObject_def ex_image_def dict_get_def dict_has_def js_lt_def)
  show ?thesis
    unfolding c downsampleFactor_high25 using t
    by (simp add: processImages_id ex_doc_calls) (simp add: ex_defs op_defs)
qed

text \<open>
  C9. For an image XObject whose dictionary has no Width entry or no Height entry,
  \<open>processImageXObject\<close> returns normally, with the document unchanged and no factor
  computed.
\<close>

theorem C9_missing_dimension:
  "dictOf imageObj = Some d \<Longrightarrow> \<not> dict_has d ''Width'' \<or> \<not> dict_has d ''Height'' \<Longrightarrow>
   processImageXObject opts imageObj imageRef (doc, calls) =
     Inr (doc, calls @ [(imageRef, None)])"
  by (auto simp add: processImageXObject_def dict_has_def dict_get_def split: option.splits)

theorem C9_missing_dimension_witness:
  "dictOf ex_noWidth = Some [(''Subtype'', PDFName ''Image''), (''Height'', PDFNumber 300)]
   \<and> \<not> dict_has [(''Subtype'', PDFName ''Image''), (''Height'', PDFNumber 300)] ''Width''
   \<and> processImageXObject ex_high25 ex_noWidth 5 (ex_doc, []) = Inr (ex_doc, [(5, None)])"
proof -
  have a: "dictOf ex_noWidth = Some [(''Subtype'', PDFName ''Image''), (''Height'', PDFNumber 300)]"
    by (simp add: ex_noWidth_def)
  have b: "\<not> dict_has [(''Subtype'', PDFName ''Image''), (''Height'', PDFNumber 300)] ''Width''"
    by (simp add: dict_has_def)
  show ?thesis
    using a b C9_missing_dimension[OF a disjI1[OF b], of ex_high25 5 ex_doc "[]"] by simp
qed

text \<open>
  C10. A page whose Resources entry is a direct object, or whose resource dictionary has
  a direct XObject entry, is skipped by the image stage: the loop body completes without
  an error, without a call of \<open>processImageXObject\<close> and without a change. When every
  page is of that kind the whole stage does so.
\<close>

theorem C10_inline_skipped:
  "(inlineEntry (fst st) page \<longrightarrow> processImages_page opts page st = Inr st)
   \<and> ((\<forall>page \<in> set (pages doc). inlineEntry doc page) \<longrightarrow>
        processImages_body opts (doc, calls) = Inr (doc, calls))"
proof -
  have one: "processImages_page opts page st = Inr st" if h: "inlineEntry (fst st) page"
    for st page
  proof -
    obtain dict where d: "dictAt (fst st) page = Some dict"
      using h by (auto simp: inlineEntry_def split: option.splits)
    obtain v where v: "dict_get dict ''Resources'' = Some v"
      using h d by (auto simp: inlineEntry_def split: option.splits)
    show ?thesis
    proof (cases "\<exists>r. v = PDFRef r")
      case False
      then show ?thesis using d v
        by (cases v) (simp_all add: processImages_page_def dict_has_def dict_get_def)
    next
      case True
      then obtain r where r: "v = PDFRef r" by blast
      obtain res where res: "dictAt (fst st) r = Some res"
        using h d v r by (auto simp: inlineEntry_def split: option.splits)
      obtain x where x: "dict_get res ''XObject'' = Some x"
        using h d v r res by (auto simp: inlineEntry_def split: option.splits)
      have "\<not> (\<exists>q. x = PDFRef q)"
        using h d v r res x by (auto simp: inlineEntry_def)
      then show ?thesis using d v r res x
        by (cases x) (simp_all add: processImages_page_def dict_has_def dict_get_def)
    qed
  qed
  have all: "(\<forall>page \<in> set ps. inlineEntry doc page) \<Longrightarrow>
      steps (map (processImages_page opts) ps) (doc, calls) = Inr (doc, calls)" for ps
    by (induction ps) (auto simp: one)
  show ?thesis using one all by (simp add: processImages_body_def)
qed

theorem C10_inline_skipped_witness:
  "inlineEntry ex_inline_doc 2 \<and> inlineEntry ex_inline_doc 3
   \<and> processImages_page ex_high25 2 (ex_inline_doc, []) = Inr (ex_inline_doc, [])
   \<and> processImages_page ex_high25 3 (ex_inline_doc, []) = Inr (ex_inline_doc, [])
   \<and> processImages_body ex_high25 (ex_inline_doc, []) = Inr (ex_inline_doc, [])"
proof -
  have a: "inlineEntry ex_inline_doc 2" and b: "inlineEntry ex_inline_doc 3"
    by (simp_all add: inlineEntry_def ex_defs op_defs)
  have c: "\<forall>page \<in> set (pages ex_inline_doc). inlineEntry ex_inline_doc page"
    using a b by (simp add: ex_inline_doc_def)
  show ?thesis
    using a b c
      C10_inline_skipped[of "(ex_inline_doc, [])" 2 ex_high25 ex_inline_doc "[]"]
      C10_inline_skipped[of "(ex_inline_doc, [])" 3 ex_high25 ex_inline_doc "[]"]
    by simp
qed

section \<open>Claims about the pruning stages\<close>

text \<open>
  C3 (amended). In the enhanced worker, for every document whose catalog and page
  references resolve to dictionaries and whatever the options, the catalog has none of
  Metadata, MarkInfo, Outlines, PageLabels, ViewerPreferences, PageLayout, PageMode,
  Threads, OpenAction and Names after \<open>removeMetadata\<close> and after the four stages
  (the Names entry goes as a whole, so no EmbeddedFiles entry is left under it), and the
  trailer's Info reference is cleared. The module worker strips nothing unless the level
  is high, and then only the catalog's Metadata entry and the Info reference.
\<close>

theorem C3_catalog_stripped:
  "(wellFormed d \<longrightarrow>
      (\<forall>k \<in> set strippedCatalogKeys.
          \<not> hasKey (removeMetadata d) (Root d) k \<and> \<not> hasKey (applyStages opts d) (Root d) k)
      \<and> \<not> namesEmbeddedFiles (removeMetadata d) \<and> \<not> namesEmbeddedFiles (applyStages opts d)
      \<and> Info (removeMetadata d) = None \<and> Info (applyStages opts d) = None)
   \<and> (compressionLevel opts \<noteq> High \<longrightarrow> stripMetadata_module opts d = Inr d)
   \<and> (compressionLevel opts = High \<and> dictAt d (Root d) \<noteq> None \<longrightarrow>
        (\<exists>d'. stripMetadata_module opts d = Inr d'
              \<and> \<not> hasKey d' (Root d) ''Metadata'' \<and> Info d' = None
              \<and> (\<forall>k. k \<noteq> ''Metadata'' \<longrightarrow> hasKey d' (Root d) k = hasKey d (Root d) k)))"
proof -
  have 1: "wellFormed d \<longrightarrow>
      (\<forall>k \<in> set strippedCatalogKeys.
          \<not> hasKey (removeMetadata d) (Root d) k \<and> \<not> hasKey (applyStages opts d) (Root d) k)
      \<and> \<not> namesEmbeddedFiles (removeMetadata d) \<and> \<not> namesEmbeddedFiles (applyStages opts d)
      \<and> Info (removeMetadata d) = None \<and> Info (applyStages opts d) = None"
  proof
    assume w: "wellFormed d"
    show "(\<forall>k \<in> set strippedCatalogKeys.
          \<not> hasKey (removeMetadata d) (Root d) k \<and> \<not> hasKey (applyStages opts d) (Root d) k)
      \<and> \<not> namesEmbeddedFiles (removeMetadata d) \<and> \<not> namesEmbeddedFiles (applyStages opts d)
      \<and> Info (removeMetadata d) = None \<and> Info (applyStages opts d) = None"
      using removeMetadata_stripped[OF w prunes_refl]
        removeMetadata_stripped[OF w prunes_applyStages[of d opts]] by simp
  qed
  have 2: "compressionLevel opts \<noteq> High \<longrightarrow> stripMetadata_module opts d = Inr d"
    by (simp add: stripMetadata_module_def)
  have 3: "compressionLevel opts = High \<and> dictAt d (Root d) \<noteq> None \<longrightarrow>
        (\<exists>d'. stripMetadata_module opts d = Inr d'
              \<and> \<not> hasKey d' (Root d) ''Metadata'' \<and> Info d' = None
              \<and> (\<forall>k. k \<noteq> ''Metadata'' \<longrightarrow> hasKey d' (Root d) k = hasKey d (Root d) k))"
  proof
    assume h: "compressionLevel opts = High \<and> dictAt d (Root d) \<noteq> None"
    then have c: "dictAt d (Root d) \<noteq> None" by simp
    obtain d1 where d1: "removeMetadata_module d = Inr d1"
        "\<not> hasKey d1 (Root d) ''Metadata''" "Info d1 = None"
        "\<forall>k. k \<noteq> ''Metadata'' \<longrightarrow> hasKey d1 (Root d) k = hasKey d (Root d) k"
      using removeMetadata_module_catalog[OF c] by blast
    have "stripMetadata_module opts d = Inr d1" using h d1(1) by (simp add: stripMetadata_module_def)
    then show "\<exists>d'. stripMetadata_module opts d = Inr d'
              \<and> \<not> hasKey d' (Root d) ''Metadata'' \<and> Info d' = None
              \<and> (\<forall>k. k \<noteq> ''Metadata'' \<longrightarrow> hasKey d' (Root d) k = hasKey d (Root d) k)"
      using d1(2,3,4) by blast
  qed
  show ?thesis using 1 2 3 by blast
qed

theorem C3_catalog_stripped_witness:
  "wellFormed ex_doc
   \<and> hasKey ex_doc 1 ''Metadata'' \<and> hasKey ex_doc 1 ''PageLabels'' \<and> namesEmbeddedFiles ex_doc
   \<and> Info ex_doc = Some 6
   \<and> \<not> hasKey (applyStages ex_low95 ex_doc) 1 ''Metadata''
   \<and> \<not> hasKey (applyStages ex_low95 ex_doc) 1 ''PageLabels''
   \<and> \<not> namesEmbeddedFiles (applyStages ex_low95 ex_doc)
   \<and> Info (applyStages ex_low95 ex_doc) = None
   \<and> stripMetadata_module ex_low95 ex_doc = Inr ex_doc
   \<and> \<not> hasKey (stateOf (stripMetadata_module ex_high25 ex_doc)) 1 ''Metadata''
   \<and> hasKey (stateOf (stripMetadata_module ex_high25 ex_doc)) 1 ''MarkInfo''"
proof -
  have c: "dictAt ex_doc (Root ex_doc) \<noteq> None"
    using ex_doc_wellFormed by (rule wellFormed_catalog)
  have l: "compressionLevel ex_low95 \<noteq> High" and h: "compressionLevel ex_high25 = High"
    by (simp_all add: ex_low95_def ex_high25_def)
  obtain d' where d': "stripMetadata_module ex_high25 ex_doc = Inr d'"
      "\<not> hasKey d' (Root ex_doc) ''Metadata''"
    using C3_catalog_stripped[of ex_doc ex_high25] c h by blast
  have m: "\<not> hasKey (stateOf (stripMetadata_module ex_high25 ex_doc)) 1 ''Metadata''"
    using d' ex_doc_keys by (simp add: stateOf_def)
  show ?thesis
    using C3_catalog_stripped[of ex_doc ex_low95] ex_doc_wellFormed ex_doc_keys l m ex_module_high_markinfo
    by (simp add: strippedCatalogKeys_def)
qed


text \<open>
  The claim is stated for every request and every level. The module worker at level low
  leaves Metadata, MarkInfo and the Info reference of the example in place, and at level
  high it leaves MarkInfo; the enhanced worker keeps PageLabels when a page reference
  does not resolve, since \<open>removeMetadata\<close> throws in its page loop before reaching
  the list of catalog entries.
\<close>

theorem C3_module_worker_counterexample:
  "hasKey ex_doc (Root ex_doc) ''Metadata'' \<and> hasKey ex_doc (Root ex_doc) ''MarkInfo''
   \<and> Info ex_doc = Some 6
   \<and> stripMetadata_module ex_low95 ex_doc = Inr ex_doc
   \<and> removeUnnecessaryObjects ex_low95 ex_doc = Inr ex_doc
   \<and> hasKey (stateOf (stripMetadata_module ex_high25 ex_doc)) (Root ex_doc) ''MarkInfo''
   \<and> hasKey (applyStages ex_low95 ex_missing_page_doc) (Root ex_missing_page_doc) ''PageLabels''"
  using ex_doc_keys ex_module_low ex_module_high_markinfo ex_missing_page_kept
  by (simp add: ex_missing_page_doc_def)


text \<open>
  C5 (amended). In the enhanced worker, for every document whose catalog and page
  references resolve to dictionaries and whatever the options, no page dictionary has a
  Thumb entry after \<open>removeMetadata\<close> and after the four stages. In the module worker
  \<open>removeUnnecessaryObjects\<close> changes nothing at level low and removes Thumb from
  every page at the levels medium and high.
\<close>

theorem C5_thumbnails_removed:
  "(wellFormed d \<longrightarrow>
      (\<forall>page \<in> set (pages d).
          \<not> hasKey (removeMetadata d) page ''Thumb'' \<and> \<not> hasKey (applyStages opts d) page ''Thumb''))
   \<and> (compressionLevel opts = Low \<longrightarrow> removeUnnecessaryObjects opts d = Inr d)
   \<and> (compressionLevel opts \<noteq> Low \<and> wellFormed d \<longrightarrow>
        (\<exists>d'. removeUnnecessaryObjects opts d = Inr d'
              \<and> (\<forall>page \<in> set (pages d). \<not> hasKey d' page ''Thumb'')))"
proof -
  have 1: "wellFormed d \<longrightarrow>
      (\<forall>page \<in> set (pages d).
          \<not> hasKey (removeMetadata d) page ''Thumb'' \<and> \<not> hasKey (applyStages opts d) page ''Thumb'')"
    using removeMetadata_catalog(3)[OF _ prunes_refl]
      removeMetadata_catalog(3)[OF _ prunes_applyStages[of d opts]] by blast
  have 2: "compressionLevel opts = Low \<longrightarrow> removeUnnecessaryObjects opts d = Inr d"
    by (simp add: removeUnnecessaryObjects_def)
  have 3: "compressionLevel opts \<noteq> Low \<and> wellFormed d \<longrightarrow>
        (\<exists>d'. removeUnnecessaryObjects opts d = Inr d'
              \<and> (\<forall>page \<in> set (pages d). \<not> hasKey d' page ''Thumb''))"
  proof
    assume h: "compressionLevel opts \<noteq> Low \<and> wellFormed d"
    then obtain d2 where d2: "removeUnnecessaryObjects opts d = Inr d2"
        "\<forall>page \<in> set (pages d). deleteIfHas page ''Thumb'' d2 = Inr d2"
      using removeUnnecessaryObjects_wellFormed[of d opts] by blast
    have "\<forall>page \<in> set (pages d). \<not> hasKey d2 page ''Thumb''"
      using d2(2) deleteIfHas_noop_absent by blast
    then show "\<exists>d'. removeUnnecessaryObjects opts d = Inr d'
              \<and> (\<forall>page \<in> set (pages d). \<not> hasKey d' page ''Thumb'')"
      using d2(1) by blast
  qed
  show ?thesis using 1 2 3 by blast
qed


theorem C5_thumbnails_removed_witness:
  "wellFormed ex_doc \<and> pages ex_doc = [2] \<and> hasKey ex_doc 2 ''Thumb''
   \<and> \<not> hasKey (removeMetadata ex_doc) 2 ''Thumb''
   \<and> \<not> hasKey (applyStages ex_low95 ex_doc) 2 ''Thumb''
   \<and> removeUnnecessaryObjects ex_low95 ex_doc = Inr ex_doc
   \<and> \<not> hasKey (stateOf (removeUnnecessaryObjects ex_high25 ex_doc)) 2 ''Thumb''"
proof -
  have l: "compressionLevel ex_low95 = Low" and h: "compressionLevel ex_high25 \<noteq> Low"
    by (simp_all add: ex_low95_def ex_high25_def)
  obtain d' where d': "removeUnnecessaryObjects ex_high25 ex_doc = Inr d'"
      "\<forall>page \<in> set (pages ex_doc). \<not> hasKey d' page ''Thumb''"
    using C5_thumbnails_removed[of ex_doc ex_high25] h ex_doc_wellFormed by blast
  have m: "\<not> hasKey (stateOf (removeUnnecessaryObjects ex_high25 ex_doc)) 2 ''Thumb''"
    using d' ex_doc_keys by (simp add: stateOf_def)
  show ?thesis
    using C5_thumbnails_removed[of ex_doc ex_low95] ex_doc_wellFormed ex_doc_keys l m by simp
qed


text \<open>
  The claim is stated for every request and every level. The module worker at level low
  leaves the Thumb entry of the example page; the enhanced worker leaves it on a page
  that follows an unresolvable page reference.
\<close>

theorem C5_module_worker_counterexample:
  "2 \<in> set (pages ex_doc) \<and> hasKey ex_doc 2 ''Thumb''
   \<and> compressionLevel ex_low95 = Low
   \<and> stripMetadata_module ex_low95 ex_doc = Inr ex_doc
   \<and> removeUnnecessaryObjects ex_low95 ex_doc = Inr ex_doc
   \<and> 2 \<in> set (pages ex_missing_page_doc)
   \<and> hasKey (applyStages ex_low95 ex_missing_page_doc) 2 ''Thumb''"
  using ex_doc_keys ex_module_low ex_missing_page_kept
  by (simp add: ex_missing_page_doc_def ex_low95_def)


text \<open>
  C6. For every document and all options, running the four stages of the enhanced worker
  a second time gives the document the first run gave. The second run raises no error of
  its own: a stage body throws in the second run only if it threw in the first (on a
  document whose catalog and page references resolve, \<open>removeMetadata\<close> and
  \<open>optimizeDocumentStructure\<close> do not throw at all), and \<open>deleteIfHas\<close> on a
  dictionary without the key completes and changes nothing.
\<close>

theorem C6_pruning_idempotent:
  "applyStages opts (applyStages opts d) = applyStages opts d
   \<and> (isl (removeMetadata_body (applyStages opts d)) \<longrightarrow> isl (removeMetadata_body d))
   \<and> (isl (optimizeContentStreams_body opts (applyStages opts d)) \<longrightarrow>
        isl (optimizeContentStreams_body opts (removeMetadata d)))
   \<and> (isl (optimizeDocumentStructure_body opts (applyStages opts d)) \<longrightarrow>
        isl (optimizeDocumentStructure_body opts (optimizeContentStreams opts (removeMetadata d))))
   \<and> (wellFormed d \<longrightarrow>
        \<not> isl (removeMetadata_body (applyStages opts d))
        \<and> \<not> isl (optimizeDocumentStructure_body opts (applyStages opts d)))
   \<and> (\<forall>r k es. dictAt d r = Some es \<and> \<not> dict_has es k \<longrightarrow> deleteIfHas r k d = Inr d)"
proof -
  let ?d1 = "removeMetadata d"
  let ?d2 = "optimizeContentStreams opts ?d1"
  let ?d3 = "optimizeDocumentStructure opts ?d2"
  note aux = applyStages_idem_aux[where opts=opts and d=d]
  have 1: "applyStages opts (applyStages opts d) = applyStages opts d"
    using aux(1) aux(7) by simp
  have 2: "isl (removeMetadata_body ?d3) \<longrightarrow> isl (removeMetadata_body d)"
    using removeMetadata_rerun[OF aux(2)] by (metis sum.disc(2))
  have 3: "isl (optimizeContentStreams_body opts ?d3) \<longrightarrow> isl (optimizeContentStreams_body opts ?d1)"
    using optimizeContentStreams_rerun[OF aux(3)] by (metis sum.disc(2))
  have 4: "isl (optimizeDocumentStructure_body opts ?d3) \<longrightarrow> isl (optimizeDocumentStructure_body opts ?d2)"
    using optimizeDocumentStructure_rerun[OF prunes_refl[of ?d3]] by (metis sum.disc(2))
  have 5: "\<forall>r k es. dictAt d r = Some es \<and> \<not> dict_has es k \<longrightarrow> deleteIfHas r k d = Inr d"
    by (simp add: deleteIfHas_Some)
  have 6: "\<not> isl (removeMetadata_body (applyStages opts d))
           \<and> \<not> isl (optimizeDocumentStructure_body opts (applyStages opts d))"
    if w: "wellFormed d"
  proof -
    have w': "wellFormed (applyStages opts d)"
      using prunes_applyStages_whole w by (rule prunes_wellFormed)
    have a: "\<not> isl (removeMetadata_body (applyStages opts d))"
      using removeMetadata_wellFormed[OF w'] by simp
    have b: "\<not> isl (optimizeDocumentStructure_body opts (applyStages opts d))"
      using optimizeDocumentStructure_body_ok[OF wellFormed_catalog[OF w']] .
    show ?thesis using a b by simp
  qed
  show ?thesis using 1 2 3 4 5 6 aux(1) by simp
qed

theorem C6_pruning_idempotent_witness:
  "applyStages ex_high25 (applyStages ex_high25 ex_doc) = applyStages ex_high25 ex_doc
   \<and> hasKey ex_doc 1 ''Metadata'' \<and> \<not> hasKey (applyStages ex_high25 ex_doc) 1 ''Metadata''
   \<and> wellFormed ex_doc
   \<and> \<not> isl (removeMetadata_body (applyStages ex_high25 ex_doc))
   \<and> \<not> isl (optimizeDocumentStructure_body ex_high25 (applyStages ex_high25 ex_doc))
   \<and> isl (removeMetadata_body (applyStages ex_high25 ex_missing_page_doc))
   \<and> isl (removeMetadata_body ex_missing_page_doc)
   \<and> isl (optimizeContentStreams_body ex_high25 (applyStages ex_high25 ex_dangling_doc))
   \<and> isl (optimizeContentStreams_body ex_high25 (removeMetadata ex_dangling_doc))
   \<and> isl (optimizeDocumentStructure_body ex_high25 (applyStages ex_high25 ex_no_catalog_doc))
   \<and> isl (optimizeDocumentStructure_body ex_high25
           (optimizeContentStreams ex_high25 (removeMetadata ex_no_catalog_doc)))
   \<and> applyStages ex_high25 (applyStages ex_high25 ex_dangling_doc)
       = applyStages ex_high25 ex_dangling_doc
   \<and> \<not> hasKey ex_doc 2 ''Annots'' \<and> deleteIfHas 2 ''Annots'' ex_doc = Inr ex_doc"
proof -
  have a: "\<not> hasKey (applyStages ex_high25 ex_doc) 1 ''Metadata''"
    using removeMetadata_catalog(2)[OF ex_doc_wellFormed prunes_applyStages, of "''Metadata''" ex_high25]
      ex_doc_keys by simp
  have b: "dictAt ex_doc 2 = Some [(''Type'', PDFName ''Page''), (''Resources'', PDFRef 3),
                                   (''Thumb'', PDFRef 8)]"
    by (simp add: ex_defs op_defs)
  have c: "\<not> dict_has [(''Type'', PDFName ''Page''), (''Resources'', PDFRef 3),
                        (''Thumb'', PDFRef 8)] ''Annots''"
    by (simp add: dict_has_def)
  have d: "\<not> hasKey ex_doc 2 ''Annots''" using b c by (simp add: hasKey_def)
  have e: "\<not> isl (removeMetadata_body (applyStages ex_high25 ex_doc))
           \<and> \<not> isl (optimizeDocumentStructure_body ex_high25 (applyStages ex_high25 ex_doc))"
    using C6_pruning_idempotent[of ex_high25 ex_doc] ex_doc_wellFormed by blast
  have f: "deleteIfHas 2 ''Annots'' ex_doc = Inr ex_doc"
    using C6_pruning_idempotent[of ex_high25 ex_doc] b c by blast
  have g: "applyStages ex_high25 (applyStages ex_high25 ex_doc) = applyStages ex_high25 ex_doc"
    "applyStages ex_high25 (applyStages ex_high25 ex_dangling_doc)
       = applyStages ex_high25 ex_dangling_doc"
    using C6_pruning_idempotent[of ex_high25 ex_doc]
      C6_pruning_idempotent[of ex_high25 ex_dangling_doc] by blast+
  show ?thesis
    using a d e f g ex_doc_keys ex_doc_wellFormed ex_dangling_fails_first
      ex_dangling_fails_second ex_no_catalog_fails ex_missing_page_fails
    by simp
qed

section \<open>Claims about the orchestrator\<close>




text \<open>
  C7. In each of the three workers a request whose load, page count, stages and save
  succeed ends with the \<open>complete\<close> message, which reports the bytes the save gave,
  the size of the input file, the size of those bytes and the quotient
  \<open>(originalSize - compressedSize) / originalSize\<close> as the division of doubles gives
  it, with nothing applied to it afterwards; and a \<open>complete\<close> message is posted
  only so. The quotient is the double of the exact quotient for a nonempty input, and it
  is negative whenever the output is larger than the input (sizes below \<open>2 ^ 53\<close>, the
  integers a double counts exactly). 1,000,000 and 400,000 give the double 0.6; 1,000,000
  and 1,050,000 give the double -0.05.
\<close>

theorem C7_compression_ratio:
  "(load fileBytes = Inr d \<and> getPageCount d = Inr n
      \<and> savePdfWithOptions save (applyStages opts d) opts = Inr bytes \<longrightarrow>
      last (onmessage load save fileBytes opts) =
        Complete \<lparr>compressedFile = bytes, originalSize = length fileBytes,
                  compressedSize = length bytes,
                  compressionRatio = js_div (of_nat (length fileBytes) - of_nat (length bytes))
                                            (of_nat (length fileBytes))\<rparr>)
   \<and> (load fileBytes = Inr d \<and> getPageCount d = Inr n
      \<and> stripMetadata_module opts d = Inr d1 \<and> removeUnnecessaryObjects opts d1 = Inr d2
      \<and> savePdfWithOptions_module save d2 opts = Inr bytes \<longrightarrow>
      last (onmessage_module load save fileBytes opts) =
        Complete \<lparr>compressedFile = bytes, originalSize = length fileBytes,
                  compressedSize = length bytes,
                  compressionRatio = js_div (of_nat (length fileBytes) - of_nat (length bytes))
                                            (of_nat (length fileBytes))\<rparr>)
   \<and> (load fileBytes = Inr d \<and> getPageCount d = Inr n
      \<and> save \<lparr>useObjectStreams = True, addDefaultPage = False,
               updateFieldAppearances = None, compress = Some True,
               objectsPerTick = None\<rparr> d = Inr bytes \<longrightarrow>
      last (onmessage_inline load save fileBytes) =
        Complete \<lparr>compressedFile = bytes, originalSize = length fileBytes,
                  compressedSize = length bytes,
                  compressionRatio = js_div (of_nat (length fileBytes) - of_nat (length bytes))
                                            (of_nat (length fileBytes))\<rparr>)
   \<and> (Complete r \<in> set (onmessage load save fileBytes opts) \<longrightarrow>
        (\<exists>d' n'. load fileBytes = Inr d' \<and> getPageCount d' = Inr n'
            \<and> savePdfWithOptions save (applyStages opts d') opts = Inr (compressedFile r)))
   \<and> (Complete r \<in> set (onmessage_module load save fileBytes opts) \<longrightarrow>
        (\<exists>d' n' d1' d2'. load fileBytes = Inr d' \<and> getPageCount d' = Inr n'
            \<and> stripMetadata_module opts d' = Inr d1'
            \<and> removeUnnecessaryObjects opts d1' = Inr d2'
            \<and> savePdfWithOptions_module save d2' opts = Inr (compressedFile r)))
   \<and> (Complete r \<in> set (onmessage_inline load save fileBytes) \<longrightarrow>
        (\<exists>d' n'. load fileBytes = Inr d' \<and> getPageCount d' = Inr n'
            \<and> save \<lparr>useObjectStreams = True, addDefaultPage = False,
                     updateFieldAppearances = None, compress = Some True,
                     objectsPerTick = None\<rparr> d' = Inr (compressedFile r)))
   \<and> (Complete r \<in> set (onmessage load save fileBytes opts)
       \<or> Complete r \<in> set (onmessage_module load save fileBytes opts)
       \<or> Complete r \<in> set (onmessage_inline load save fileBytes) \<longrightarrow>
        originalSize r = length fileBytes
        \<and> compressedSize r = length (compressedFile r)
        \<and> compressionRatio r =
            js_div (of_nat (originalSize r) - of_nat (compressedSize r)) (of_nat (originalSize r))
        \<and> (0 < originalSize r \<longrightarrow>
              compressionRatio r =
                js_round ((of_nat (originalSize r) - of_nat (compressedSize r))
                          / of_nat (originalSize r)))
        \<and> (originalSize r < 2 ^ 53 \<and> originalSize r < compressedSize r \<longrightarrow>
              js_negative (compressionRatio r)))
   \<and> js_div (1000000 - 400000) 1000000 = Num (toDouble (6 / 10))
   \<and> js_div (1000000 - 1050000) 1000000 = Num (toDouble (- 5 / 100))"
proof -
  have e: "load fileBytes = Inr d \<and> getPageCount d = Inr n
      \<and> savePdfWithOptions save (applyStages opts d) opts = Inr bytes \<longrightarrow>
      last (onmessage load save fileBytes opts) =
        Complete \<lparr>compressedFile = bytes, originalSize = length fileBytes,
                  compressedSize = length bytes,
                  compressionRatio = js_div (of_nat (length fileBytes) - of_nat (length bytes))
                                            (of_nat (length fileBytes))\<rparr>"
    by (simp add: onmessage_last onComplete_def)
  have m: "load fileBytes = Inr d \<and> getPageCount d = Inr n
      \<and> stripMetadata_module opts d = Inr d1 \<and> removeUnnecessaryObjects opts d1 = Inr d2
      \<and> savePdfWithOptions_module save d2 opts = Inr bytes \<longrightarrow>
      last (onmessage_module load save fileBytes opts) =
        Complete \<lparr>compressedFile = bytes, originalSize = length fileBytes,
                  compressedSize = length bytes,
                  compressionRatio = js_div (of_nat (length fileBytes) - of_nat (length bytes))
                                            (of_nat (length fileBytes))\<rparr>"
  proof
    assume h: "load fileBytes = Inr d \<and> getPageCount d = Inr n
      \<and> stripMetadata_module opts d = Inr d1 \<and> removeUnnecessaryObjects opts d1 = Inr d2
      \<and> savePdfWithOptions_module save d2 opts = Inr bytes"
    then have "last (onmessage_module load save fileBytes opts) =
       (case savePdfWithOptions_module save d2 opts of
          Inl e \<Rightarrow> onError e
        | Inr bytes \<Rightarrow> last (onComplete fileBytes bytes))"
      using onmessage_module_last[of load fileBytes d n opts d1 d2 save] by blast
    then show "last (onmessage_module load save fileBytes opts) =
        Complete \<lparr>compressedFile = bytes, originalSize = length fileBytes,
                  compressedSize = length bytes,
                  compressionRatio = js_div (of_nat (length fileBytes) - of_nat (length bytes))
                                            (of_nat (length fileBytes))\<rparr>"
      using h by (simp add: onComplete_def)
  qed
  have i: "load fileBytes = Inr d \<and> getPageCount d = Inr n
      \<and> save \<lparr>useObjectStreams = True, addDefaultPage = False,
               updateFieldAppearances = None, compress = Some True,
               objectsPerTick = None\<rparr> d = Inr bytes \<longrightarrow>
      last (onmessage_inline load save fileBytes) =
        Complete \<lparr>compressedFile = bytes, originalSize = length fileBytes,
                  compressedSize = length bytes,
                  compressionRatio = js_div (of_nat (length fileBytes) - of_nat (length bytes))
                                            (of_nat (length fileBytes))\<rparr>"
    by (simp add: onmessage_inline_last onComplete_def)
  have ce: "Complete r \<in> set (onmessage load save fileBytes opts) \<longrightarrow>
        (\<exists>d' n'. load fileBytes = Inr d' \<and> getPageCount d' = Inr n'
            \<and> savePdfWithOptions save (applyStages opts d') opts = Inr (compressedFile r))"
    using complete_in_enh[of r load save fileBytes opts]
    by (auto dest!: complete_in_onComplete)
  have cm: "Complete r \<in> set (onmessage_module load save fileBytes opts) \<longrightarrow>
        (\<exists>d' n' d1' d2'. load fileBytes = Inr d' \<and> getPageCount d' = Inr n'
            \<and> stripMetadata_module opts d' = Inr d1'
            \<and> removeUnnecessaryObjects opts d1' = Inr d2'
            \<and> savePdfWithOptions_module save d2' opts = Inr (compressedFile r))"
    using complete_in_mod[of r load save fileBytes opts]
    by (auto dest!: complete_in_onComplete)
  have ci: "Complete r \<in> set (onmessage_inline load save fileBytes) \<longrightarrow>
        (\<exists>d' n'. load fileBytes = Inr d' \<and> getPageCount d' = Inr n'
            \<and> save \<lparr>useObjectStreams = True, addDefaultPage = False,
                     updateFieldAppearances = None, compress = Some True,
                     objectsPerTick = None\<rparr> d' = Inr (compressedFile r))"
    using complete_in_inl[of r load save fileBytes]
    by (auto dest!: complete_in_onComplete)
  have sz: "originalSize r = length fileBytes
        \<and> compressedSize r = length (compressedFile r)
        \<and> compressionRatio r =
            js_div (of_nat (originalSize r) - of_nat (compressedSize r)) (of_nat (originalSize r))
        \<and> (0 < originalSize r \<longrightarrow>
              compressionRatio r =
                js_round ((of_nat (originalSize r) - of_nat (compressedSize r))
                          / of_nat (originalSize r)))
        \<and> (originalSize r < 2 ^ 53 \<and> originalSize r < compressedSize r \<longrightarrow>
              js_negative (compressionRatio r))"
    if h: "Complete r \<in> set (onmessage load save fileBytes opts)
        \<or> Complete r \<in> set (onmessage_module load save fileBytes opts)
        \<or> Complete r \<in> set (onmessage_inline load save fileBytes)"
  proof -
    obtain b where "Complete r \<in> set (onComplete fileBytes b)"
      using h complete_in_enh[of r load save fileBytes opts]
        complete_in_mod[of r load save fileBytes opts] complete_in_inl[of r load save fileBytes]
      by blast
    then have r: "r = \<lparr>compressedFile = b, originalSize = length fileBytes,
          compressedSize = length b,
          compressionRatio = js_div (of_nat (length fileBytes) - of_nat (length b))
                                    (of_nat (length fileBytes))\<rparr>"
      by (rule complete_in_onComplete)
    note R = ratio_facts[of "length fileBytes" "length b"]
    show ?thesis using R by (auto simp add: r)
  qed
  show ?thesis using e m i ce cm ci sz js_div_examples(1,2) by blast
qed


theorem C7_compression_ratio_witness:
  "last (onmessage ex_load ex_save_400000 ex_file_1000000 ex_high25)
     = Complete \<lparr>compressedFile = ex_bytes_400000, originalSize = 1000000,
                 compressedSize = 400000, compressionRatio = Num (toDouble (6 / 10))\<rparr>
   \<and> last (onmessage_module ex_load ex_save_400000 ex_file_1000000 ex_high25)
     = Complete \<lparr>compressedFile = ex_bytes_400000, originalSize = 1000000,
                 compressedSize = 400000, compressionRatio = Num (toDouble (6 / 10))\<rparr>
   \<and> last (onmessage_inline ex_load ex_save_400000 ex_file_1000000)
     = Complete \<lparr>compressedFile = ex_bytes_400000, originalSize = 1000000,
                 compressedSize = 400000, compressionRatio = Num (toDouble (6 / 10))\<rparr>
   \<and> last (onmessage ex_load ex_save_1050000 ex_file_1000000 ex_high25)
     = Complete \<lparr>compressedFile = ex_bytes_1050000, originalSize = 1000000,
                 compressedSize = 1050000, compressionRatio = Num (toDouble (- 5 / 100))\<rparr>
   \<and> js_negative (Num (toDouble (- 5 / 100)))
   \<and> toDouble (6 / 10) = 5404319552844595 / 2 ^ 53
   \<and> toDouble (- 5 / 100) = - 3602879701896397 / 2 ^ 56"
proof -
  let ?q = "\<lparr>compressedFile = ex_bytes_1050000, originalSize = length ex_file_1000000,
             compressedSize = length ex_bytes_1050000,
             compressionRatio =
               js_div (of_nat (length ex_file_1000000) - of_nat (length ex_bytes_1050000))
                      (of_nat (length ex_file_1000000))\<rparr>"
  have l: "ex_load ex_file_1000000 = Inr ex_dangling_doc" by (simp add: ex_load_def)
  note g = ex_dangling_count
  have s4: "savePdfWithOptions ex_save_400000 (applyStages ex_high25 ex_dangling_doc) ex_high25
              = Inr ex_bytes_400000"
    and s5: "savePdfWithOptions ex_save_1050000 (applyStages ex_high25 ex_dangling_doc) ex_high25
              = Inr ex_bytes_1050000"
    and si: "ex_save_400000 \<lparr>useObjectStreams = True, addDefaultPage = False,
               updateFieldAppearances = None, compress = Some True,
               objectsPerTick = None\<rparr> ex_dangling_doc = Inr ex_bytes_400000"
    by (simp_all add: savePdfWithOptions_def ex_save_400000_def ex_save_1050000_def)
  obtain d1 d2 where st: "stripMetadata_module ex_high25 ex_dangling_doc = Inr d1"
      "removeUnnecessaryObjects ex_high25 d1 = Inr d2"
    using module_stages_wellFormed[OF ex_dangling_wellFormed] by blast
  have sm: "savePdfWithOptions_module ex_save_400000 d2 ex_high25 = Inr ex_bytes_400000"
    by (simp add: savePdfWithOptions_module_def ex_save_400000_def)
  have q4: "js_div (of_nat (length ex_file_1000000) - of_nat (length ex_bytes_400000))
                   (of_nat (length ex_file_1000000)) = Num (toDouble (6 / 10))"
    and q5: "js_div (of_nat (length ex_file_1000000) - of_nat (length ex_bytes_1050000))
                   (of_nat (length ex_file_1000000)) = Num (toDouble (- 5 / 100))"
    using js_div_examples(1,2) by (simp_all add: ex_lengths)
  have a: "last (onmessage ex_load ex_save_400000 ex_file_1000000 ex_high25) =
        Complete \<lparr>compressedFile = ex_bytes_400000, originalSize = length ex_file_1000000,
                  compressedSize = length ex_bytes_400000,
                  compressionRatio =
                    js_div (of_nat (length ex_file_1000000) - of_nat (length ex_bytes_400000))
                           (of_nat (length ex_file_1000000))\<rparr>"
    using C7_compression_ratio[where load = ex_load and fileBytes = ex_file_1000000
        and d = ex_dangling_doc and n = 1 and save = ex_save_400000 and opts = ex_high25
        and bytes = ex_bytes_400000] l g s4
    by blast
  have b: "last (onmessage_module ex_load ex_save_400000 ex_file_1000000 ex_high25) =
        Complete \<lparr>compressedFile = ex_bytes_400000, originalSize = length ex_file_1000000,
                  compressedSize = length ex_bytes_400000,
                  compressionRatio =
                    js_div (of_nat (length ex_file_1000000) - of_nat (length ex_bytes_400000))
                           (of_nat (length ex_file_1000000))\<rparr>"
    using C7_compression_ratio[where load = ex_load and fileBytes = ex_file_1000000
        and d = ex_dangling_doc and n = 1 and save = ex_save_400000 and opts = ex_high25
        and bytes = ex_bytes_400000 and ?d1.0 = d1 and ?d2.0 = d2] l g st sm
    by blast
  have c: "last (onmessage_inline ex_load ex_save_400000 ex_file_1000000) =
        Complete \<lparr>compressedFile = ex_bytes_400000, originalSize = length ex_file_1000000,
                  compressedSize = length ex_bytes_400000,
                  compressionRatio =
                    js_div (of_nat (length ex_file_1000000) - of_nat (length ex_bytes_400000))
                           (of_nat (length ex_file_1000000))\<rparr>"
    using C7_compression_ratio[where load = ex_load and fileBytes = ex_file_1000000
        and d = ex_dangling_doc and n = 1 and save = ex_save_400000 and opts = ex_high25
        and bytes = ex_bytes_400000] l g si
    by blast
  have d: "last (onmessage ex_load ex_save_1050000 ex_file_1000000 ex_high25) =
        Complete \<lparr>compressedFile = ex_bytes_1050000, originalSize = length ex_file_1000000,
                  compressedSize = length ex_bytes_1050000,
                  compressionRatio =
                    js_div (of_nat (length ex_file_1000000) - of_nat (length ex_bytes_1050000))
                           (of_nat (length ex_file_1000000))\<rparr>"
    using C7_compression_ratio[where load = ex_load and fileBytes = ex_file_1000000
        and d = ex_dangling_doc and n = 1 and save = ex_save_1050000 and opts = ex_high25
        and bytes = ex_bytes_1050000] l g s5
    by blast
  have v: "toDouble (6 / 10) = 5404319552844595 / 2 ^ 53"
    "toDouble (- 5 / 100) = - 3602879701896397 / 2 ^ 56"
    by (simp_all only: literal_doubles)
  have a': "last (onmessage ex_load ex_save_400000 ex_file_1000000 ex_high25)
     = Complete \<lparr>compressedFile = ex_bytes_400000, originalSize = 1000000,
                 compressedSize = 400000, compressionRatio = Num (toDouble (6 / 10))\<rparr>"
    by (simp only: a q4) (simp only: ex_lengths)
  have b': "last (onmessage_module ex_load ex_save_400000 ex_file_1000000 ex_high25)
     = Complete \<lparr>compressedFile = ex_bytes_400000, originalSize = 1000000,
                 compressedSize = 400000, compressionRatio = Num (toDouble (6 / 10))\<rparr>"
    by (simp only: b q4) (simp only: ex_lengths)
  have c': "last (onmessage_inline ex_load ex_save_400000 ex_file_1000000)
     = Complete \<lparr>compressedFile = ex_bytes_400000, originalSize = 1000000,
                 compressedSize = 400000, compressionRatio = Num (toDouble (6 / 10))\<rparr>"
    by (simp only: c q4) (simp only: ex_lengths)
  have d': "last (onmessage ex_load ex_save_1050000 ex_file_1000000 ex_high25)
     = Complete \<lparr>compressedFile = ex_bytes_1050000, originalSize = 1000000,
                 compressedSize = 1050000, compressionRatio = Num (toDouble (- 5 / 100))\<rparr>"
    by (simp only: d q5) (simp only: ex_lengths)
  have "onmessage ex_load ex_save_1050000 ex_file_1000000 ex_high25 \<noteq> []"
    by (simp add: onmessage_def)
  then have "last (onmessage ex_load ex_save_1050000 ex_file_1000000 ex_high25)
               \<in> set (onmessage ex_load ex_save_1050000 ex_file_1000000 ex_high25)"
    by (rule last_in_set)
  then have p1: "Complete ?q \<in> set (onmessage ex_load ex_save_1050000 ex_file_1000000 ex_high25)"
    by (simp only: d)
  have p2: "originalSize ?q < 2 ^ 53" and p3: "originalSize ?q < compressedSize ?q"
    by (simp_all add: ex_lengths)
  have "js_negative (compressionRatio ?q)"
    using C7_compression_ratio[where r = ?q and load = ex_load and fileBytes = ex_file_1000000
        and save = ex_save_1050000 and opts = ex_high25] p1 p2 p3
    by blast
  then have neg: "js_negative (Num (toDouble (- 5 / 100)))" by (simp add: q5)
  show ?thesis
    using a' b' c' d' neg v by blast
qed

text \<open>
  C8. For each of the three workers and every request, the progress values are
  non-decreasing, the last message is the \<open>complete\<close> or the \<open>error\<close> message,
  100 is among the progress values exactly when the request ends with \<open>complete\<close>,
  it is then the last progress value and the message just before \<open>complete\<close>, it
  occurs at most once, and a request that ends with \<open>error\<close> never emits it.
\<close>

theorem C8_progress_contract:
  "progressContract (onmessage load save fileBytes opts)
   \<and> progressContract (onmessage_module load save fileBytes opts)
   \<and> progressContract (onmessage_inline load save fileBytes)"
  by (simp add: progressContract_onmessage progressContract_onmessage_module
      progressContract_onmessage_inline)

theorem C8_progress_contract_witness:
  "progressContract (onmessage ex_load ex_save [1, 2, 3] ex_high25)
   \<and> progressValues (onmessage ex_load ex_save [1, 2, 3] ex_high25)
       = [5, 10, 15, 25, 40, 70, 85, 100]
   \<and> isComplete (last (onmessage ex_load ex_save [1, 2, 3] ex_high25))
   \<and> progressContract (onmessage ex_load ex_save_fail [1, 2, 3] ex_high25)
   \<and> progressValues (onmessage ex_load ex_save_fail [1, 2, 3] ex_high25)
       = [5, 10, 15, 25, 40, 70, 85]
   \<and> isError (last (onmessage ex_load ex_save_fail [1, 2, 3] ex_high25))
   \<and> progressContract (onmessage ex_load_no_catalog ex_save [1, 2, 3] ex_high25)
   \<and> progressValues (onmessage ex_load_no_catalog ex_save [1, 2, 3] ex_high25) = [5, 10]
   \<and> isError (last (onmessage ex_load_no_catalog ex_save [1, 2, 3] ex_high25))
   \<and> progressContract (onmessage ex_load_fail ex_save [1, 2, 3] ex_high25)
   \<and> progressValues (onmessage ex_load_fail ex_save [1, 2, 3] ex_high25) = [5]
   \<and> progressContract (onmessage_module ex_load ex_save [1, 2, 3] ex_high25)
   \<and> progressValues (onmessage_module ex_load ex_save [1, 2, 3] ex_high25)
       = [10, 20, 30, 35, 50, 70, 80, 90, 100]
   \<and> isComplete (last (onmessage_module ex_load ex_save [1, 2, 3] ex_high25))
   \<and> progressValues (onmessage_module ex_load ex_save [1, 2, 3] ex_low95)
       = [10, 20, 30, 50, 70, 80, 90, 100]
   \<and> progressValues (onmessage_module ex_load ex_save_fail [1, 2, 3] ex_high25)
       = [10, 20, 30, 35, 50, 70, 80, 90]
   \<and> isError (last (onmessage_module ex_load ex_save_fail [1, 2, 3] ex_high25))
   \<and> progressValues (onmessage_module ex_load_no_catalog ex_save [1, 2, 3] ex_high25) = [10, 20]
   \<and> progressContract (onmessage_module ex_load_fail ex_save [1, 2, 3] ex_high25)
   \<and> progressValues (onmessage_module ex_load_fail ex_save [1, 2, 3] ex_high25) = [10]
   \<and> progressContract (onmessage_inline ex_load ex_save [1, 2, 3])
   \<and> progressValues (onmessage_inline ex_load ex_save [1, 2, 3]) = [10, 20, 50, 100]
   \<and> progressValues (onmessage_inline ex_load_no_catalog ex_save [1, 2, 3]) = [10, 20]"
proof -
  note g = ex_dangling_count
  note n = ex_no_catalog_count
  have a: "progressValues (onmessage ex_load ex_save [1, 2, 3] ex_high25)
             = [5, 10, 15, 25, 40, 70, 85, 100]
           \<and> isComplete (last (onmessage ex_load ex_save [1, 2, 3] ex_high25))"
    using g by (simp add: onmessage_def onComplete_def ex_load_def ex_save_def savePdfWithOptions_def)
  have b: "progressValues (onmessage ex_load ex_save_fail [1, 2, 3] ex_high25)
             = [5, 10, 15, 25, 40, 70, 85]
           \<and> isError (last (onmessage ex_load ex_save_fail [1, 2, 3] ex_high25))"
    using g by (simp add: onmessage_def onError_def ex_load_def ex_save_fail_def savePdfWithOptions_def)
  have c: "progressValues (onmessage ex_load_no_catalog ex_save [1, 2, 3] ex_high25) = [5, 10]
           \<and> isError (last (onmessage ex_load_no_catalog ex_save [1, 2, 3] ex_high25))"
    using n by (simp add: onmessage_def onError_def ex_load_no_catalog_def)
  have d: "progressValues (onmessage ex_load_fail ex_save [1, 2, 3] ex_high25) = [5]"
    "progressValues (onmessage_module ex_load_fail ex_save [1, 2, 3] ex_high25) = [10]"
    by (simp_all add: onmessage_def onmessage_module_def onError_def ex_load_fail_def)
  obtain d1 d2 where st: "stripMetadata_module ex_high25 ex_dangling_doc = Inr d1"
      "removeUnnecessaryObjects ex_high25 d1 = Inr d2"
    using module_stages_wellFormed[OF ex_dangling_wellFormed] by blast
  obtain e1 e2 where sl: "stripMetadata_module ex_low95 ex_dangling_doc = Inr e1"
      "removeUnnecessaryObjects ex_low95 e1 = Inr e2"
    using module_stages_wellFormed[OF ex_dangling_wellFormed] by blast
  have h: "compressionLevel ex_high25 = High" "compressionLevel ex_low95 \<noteq> High"
    by (simp_all add: ex_high25_def ex_low95_def)
  have e: "progressValues (onmessage_module ex_load ex_save [1, 2, 3] ex_high25)
             = [10, 20, 30, 35, 50, 70, 80, 90, 100]
           \<and> isComplete (last (onmessage_module ex_load ex_save [1, 2, 3] ex_high25))"
    using g st h
    by (simp add: onmessage_module_def onComplete_def ex_load_def ex_save_def
        savePdfWithOptions_module_def)
  have f: "progressValues (onmessage_module ex_load ex_save [1, 2, 3] ex_low95)
             = [10, 20, 30, 50, 70, 80, 90, 100]"
    using g sl h
    by (simp add: onmessage_module_def onComplete_def ex_load_def ex_save_def
        savePdfWithOptions_module_def)
  have i: "progressValues (onmessage_module ex_load ex_save_fail [1, 2, 3] ex_high25)
             = [10, 20, 30, 35, 50, 70, 80, 90]
           \<and> isError (last (onmessage_module ex_load ex_save_fail [1, 2, 3] ex_high25))"
    using g st h
    by (simp add: onmessage_module_def onError_def ex_load_def ex_save_fail_def
        savePdfWithOptions_module_def)
  have j: "progressValues (onmessage_module ex_load_no_catalog ex_save [1, 2, 3] ex_high25) = [10, 20]"
    "progressValues (onmessage_inline ex_load_no_catalog ex_save [1, 2, 3]) = [10, 20]"
    using n by (simp_all add: onmessage_module_def onmessage_inline_def onError_def
        ex_load_no_catalog_def)
  have k: "progressValues (onmessage_inline ex_load ex_save [1, 2, 3]) = [10, 20, 50, 100]"
    using g by (simp add: onmessage_inline_def onComplete_def ex_load_def ex_save_def)
  show ?thesis
    using a b c d e f i j k C8_progress_contract[of ex_load ex_save "[1, 2, 3]" ex_high25]
      C8_progress_contract[of ex_load ex_save_fail "[1, 2, 3]" ex_high25]
      C8_progress_contract[of ex_load_no_catalog ex_save "[1, 2, 3]" ex_high25]
      C8_progress_contract[of ex_load_fail ex_save "[1, 2, 3]" ex_high25]
    by simp
qed

end
